theory Spec2Isabelle
  imports Main "HOL-Library.AList"
begin

section \<open>String primitives of the host language\<close>

text \<open>
  Strings are \<^typ>\<open>string\<close>.  The functions below are the few methods of the
  JavaScript \<open>String\<close> prototype that the sources call, written out on lists of
  characters: \<open>startsWith\<close>, \<open>endsWith\<close>, \<open>includes\<close>, \<open>substring(n)\<close> and a
  leftmost regular-expression search.  A JavaScript string is a sequence of UTF-16
  code units and a \<^typ>\<open>char\<close> is a byte; the two agree on ASCII text, which is
  what URLs, header names and the marker \<open>file:\<close> are.
\<close>

fun startsWith :: "string \<Rightarrow> string \<Rightarrow> bool" where
  "startsWith s [] = True"
| "startsWith [] (p # ps) = False"
| "startsWith (c # cs) (p # ps) = (if c = p then startsWith cs ps else False)"

definition endsWith :: "string \<Rightarrow> string \<Rightarrow> bool" where
  "endsWith s p = startsWith (rev s) (rev p)"

fun includesStr :: "string \<Rightarrow> string \<Rightarrow> bool" where
  "includesStr [] p = startsWith [] p"
| "includesStr (c # cs) p = (if startsWith (c # cs) p then True else includesStr cs p)"

definition substring :: "nat \<Rightarrow> string \<Rightarrow> string" where
  "substring n s = drop n s"

text \<open>
  \<open>s.match(re)\<close> without the global flag returns the leftmost match: the pattern is
  tried at every start position from left to right, the position after the last
  character included.  \<open>here\<close> is the pattern anchored at the start of its argument.
\<close>

fun regexSearch :: "(string \<Rightarrow> 'a option) \<Rightarrow> string \<Rightarrow> 'a option" where
  "regexSearch here [] = here []"
| "regexSearch here (c # cs) =
     (case here (c # cs) of Some m \<Rightarrow> Some m | None \<Rightarrow> regexSearch here cs)"

text \<open>The character class \<open>[\w-]\<close>: ASCII letters, digits, underscore and the hyphen.\<close>

definition isNameChar :: "char \<Rightarrow> bool" where
  "isNameChar c =
     List.member ''abcdefghijklmnopqrstuvwxyzABCDEFGHIJKLMNOPQRSTUVWXYZ0123456789_-'' c"

definition notSlash :: "char \<Rightarrow> bool" where
  "notSlash c = (c \<noteq> CHR ''/'')"

section \<open>Repository Fetcher: raw URL resolution (repositorySync.ts, buildRawUrl)\<close>

text \<open>
  \<open>repoUrl.replace(/\.git$/, '')\<close>: a trailing \<open>.git\<close> is removed, once.
\<close>

definition stripGitSuffix :: "string \<Rightarrow> string" where
  "stripGitSuffix repoUrl =
     (if endsWith repoUrl ''.git'' then take (length repoUrl - 4) repoUrl else repoUrl)"

text \<open>
  The pattern \<open>HOST[/:]([\w-]+)\/([\w-]+)\<close> anchored at the start of \<open>s\<close>, shared by
  the GitHub, GitLab and Bitbucket branches.  Both groups are greedy; the character
  after the first group has to be a slash, which is outside the class, so the first
  group is the longest run of class characters and no shorter choice can match.
\<close>

definition ownerRepoHere :: "string \<Rightarrow> string \<Rightarrow> (string \<times> string) option" where
  "ownerRepoHere host s =
     (if startsWith s host then
        (case drop (length host) s of
           [] \<Rightarrow> None
         | sep # r \<Rightarrow>
             if sep = CHR ''/'' \<or> sep = CHR '':'' then
               (let owner = takeWhile isNameChar r in
                if owner = [] then None
                else (case dropWhile isNameChar r of
                        [] \<Rightarrow> None
                      | c # r' \<Rightarrow>
                          if c = CHR ''/'' then
                            (let repo = takeWhile isNameChar r' in
                             if repo = [] then None else Some (owner, repo))
                          else None))
             else None)
      else None)"

text \<open>
  The Azure DevOps pattern \<open>dev\.azure\.com\/([^/]+)\/([^/]+)\/_git\/([^/]+)\<close>
  anchored at the start of \<open>s\<close>.  Each group is the longest run of characters other
  than the slash, for the same reason as above.
\<close>

definition azureHere :: "string \<Rightarrow> (string \<times> string \<times> string) option" where
  "azureHere s =
     (if startsWith s ''dev.azure.com/'' then
        (let r = drop 14 s; org = takeWhile notSlash r in
         if org = [] then None
         else (let r1 = dropWhile notSlash r in
               if startsWith r1 ''/'' then
                 (let r2 = drop 1 r1; project = takeWhile notSlash r2 in
                  if project = [] then None
                  else (let r3 = dropWhile notSlash r2 in
                        if startsWith r3 ''/_git/'' then
                          (let repo = takeWhile notSlash (drop 6 r3) in
                           if repo = [] then None else Some (org, project, repo))
                        else None))
               else None))
      else None)"

definition githubUrl :: "string \<Rightarrow> string \<Rightarrow> string \<Rightarrow> string \<Rightarrow> string" where
  "githubUrl owner repo branch filePath =
     ''https://raw.githubusercontent.com/'' @ owner @ ''/'' @ repo @ ''/'' @ branch @ ''/'' @ filePath"

definition gitlabUrl :: "string \<Rightarrow> string \<Rightarrow> string \<Rightarrow> string \<Rightarrow> string" where
  "gitlabUrl owner repo branch filePath =
     ''https://gitlab.com/'' @ owner @ ''/'' @ repo @ ''/-/raw/'' @ branch @ ''/'' @ filePath"

definition azureUrl :: "string \<Rightarrow> string \<Rightarrow> string \<Rightarrow> string \<Rightarrow> string \<Rightarrow> string" where
  "azureUrl org project repo branch filePath =
     ''https://dev.azure.com/'' @ org @ ''/'' @ project @ ''/_apis/git/repositories/'' @ repo
       @ ''/items?path=/'' @ filePath @ ''&version=GB'' @ branch @ ''&api-version=7.0''"

definition bitbucketUrl :: "string \<Rightarrow> string \<Rightarrow> string \<Rightarrow> string \<Rightarrow> string" where
  "bitbucketUrl owner repo branch filePath =
     ''https://bitbucket.org/'' @ owner @ ''/'' @ repo @ ''/raw/'' @ branch @ ''/'' @ filePath"

definition defaultUrl :: "string \<Rightarrow> string \<Rightarrow> string \<Rightarrow> string" where
  "defaultUrl cleanUrl branch filePath = cleanUrl @ ''/raw/'' @ branch @ ''/'' @ filePath"

text \<open>
  The four host branches are tried in the order of the source; a branch whose host
  substring is present but whose pattern does not match falls through to the next.
\<close>

definition bitbucketOrDefault :: "string \<Rightarrow> string \<Rightarrow> string \<Rightarrow> string" where
  "bitbucketOrDefault cleanUrl branch filePath =
     (case (if includesStr cleanUrl ''bitbucket.org''
            then regexSearch (ownerRepoHere ''bitbucket.org'') cleanUrl else None) of
        Some (owner, repo) \<Rightarrow> bitbucketUrl owner repo branch filePath
      | None \<Rightarrow> defaultUrl cleanUrl branch filePath)"

definition azureOrLater :: "string \<Rightarrow> string \<Rightarrow> string \<Rightarrow> string" where
  "azureOrLater cleanUrl branch filePath =
     (case (if includesStr cleanUrl ''dev.azure.com''
            then regexSearch azureHere cleanUrl else None) of
        Some (org, project, repo) \<Rightarrow> azureUrl org project repo branch filePath
      | None \<Rightarrow> bitbucketOrDefault cleanUrl branch filePath)"

definition gitlabOrLater :: "string \<Rightarrow> string \<Rightarrow> string \<Rightarrow> string" where
  "gitlabOrLater cleanUrl branch filePath =
     (case (if includesStr cleanUrl ''gitlab.com''
            then regexSearch (ownerRepoHere ''gitlab.com'') cleanUrl else None) of
        Some (owner, repo) \<Rightarrow> gitlabUrl owner repo branch filePath
      | None \<Rightarrow> azureOrLater cleanUrl branch filePath)"

definition buildRawUrl :: "string \<Rightarrow> string \<Rightarrow> string \<Rightarrow> string" where
  "buildRawUrl repoUrl branch filePath =
     (let cleanUrl = stripGitSuffix repoUrl in
      case (if includesStr cleanUrl ''github.com''
            then regexSearch (ownerRepoHere ''github.com'') cleanUrl else None) of
        Some (owner, repo) \<Rightarrow> githubUrl owner repo branch filePath
      | None \<Rightarrow> gitlabOrLater cleanUrl branch filePath)"

section \<open>Data model of the Resource Loader (types.ts)\<close>

text \<open>
  \<open>AgentResource\<close> and \<open>ResourceContent\<close> as the interfaces declare them.  The
  \<open>type\<close> field is a string at run time (the union \<open>'url' | 'file' | 'api'\<close> is
  erased); optional fields are options; \<open>headers\<close> is the record's own properties
  in enumeration order; numbers of milliseconds are integers.
\<close>

record AgentResource =
  rtype :: string
  url :: string
  name :: "string option"
  description :: "string option"
  headers :: "(string \<times> string) list option"
  cacheDuration :: "int option"

record ResourceContent =
  resourceUrl :: string
  content :: string
  loadedAt :: int
  error :: "string option"

text \<open>A value of the loader's cache: \<open>{ content: string; timestamp: number }\<close>.\<close>

record cached =
  cachedContent :: string
  timestamp :: int

text \<open>
  What \<open>axios.get(url, config)\<close> is called with, and what it gives back.  A request
  either throws (timeout, non-2xx status, network error) or delivers a body.  The
  loader asks for \<open>responseType: 'text'\<close>; a body is a string, or a value that is not
  a string, and the latter carries the two renderings the runtime would produce for
  it, \<open>JSON.stringify(data, null, 2)\<close> (\<open>None\<close> when that call throws) and
  \<open>String(data)\<close>.
\<close>

record request =
  requestUrl :: string
  timeout :: nat
  requestHeaders :: "(string \<times> string) list"
  responseType :: "string option"

datatype exn = AxiosError string | Error string | TypeError string

fun message :: "exn \<Rightarrow> string" where
  "message (AxiosError m) = m"
| "message (Error m) = m"
| "message (TypeError m) = m"

datatype body = Text string | Structured "string option" string

text \<open>
  The network as the program sees it: asked at some time for some request, it answers
  after a latency with an exception or with data.
\<close>

type_synonym 'a network = "int \<Rightarrow> request \<Rightarrow> nat \<times> (exn + 'a)"

text \<open>
  The state the loader runs in: its \<open>cache\<close> field (a \<open>Map\<close>, kept as an association
  list in insertion order), the wall clock read by \<open>Date.now()\<close>, and the log of the
  requests handed to \<open>axios.get\<close> so far.
\<close>

record loaderState =
  cache :: "(string \<times> cached) list"
  clock :: int
  netCalls :: "request list"

definition defaultCacheDuration :: int where
  "defaultCacheDuration = 3600000"

section \<open>Resource Loader (urlResourceLoader.ts)\<close>

subsection \<open>\<open>JSON.stringify\<close> on a record of strings\<close>

definition hexDigit :: "nat \<Rightarrow> char" where
  "hexDigit n = ''0123456789abcdef'' ! (n mod 16)"

definition jsonEscape :: "char \<Rightarrow> string" where
  "jsonEscape c =
     (if c = CHR 0x22 then [CHR 0x5C, CHR 0x22]
      else if c = CHR 0x5C then [CHR 0x5C, CHR 0x5C]
      else if c = CHR 0x08 then [CHR 0x5C, CHR ''b'']
      else if c = CHR 0x09 then [CHR 0x5C, CHR ''t'']
      else if c = CHR 0x0A then [CHR 0x5C, CHR ''n'']
      else if c = CHR 0x0C then [CHR 0x5C, CHR ''f'']
      else if c = CHR 0x0D then [CHR 0x5C, CHR ''r'']
      else if (of_char c :: nat) < 32
        then [CHR 0x5C, CHR ''u'', CHR ''0'', CHR ''0'',
              hexDigit (of_char c div 16), hexDigit (of_char c mod 16)]
      else [c])"

definition jsonQuote :: "string \<Rightarrow> string" where
  "jsonQuote s = [CHR 0x22] @ concat (map jsonEscape s) @ [CHR 0x22]"

fun joinWith :: "string \<Rightarrow> string list \<Rightarrow> string" where
  "joinWith sep [] = []"
| "joinWith sep [x] = x"
| "joinWith sep (x # y # ys) = x @ sep @ joinWith sep (y # ys)"

definition stringifyHeaders :: "(string \<times> string) list \<Rightarrow> string" where
  "stringifyHeaders h =
     ''{'' @ joinWith '','' (map (\<lambda>(k, v). jsonQuote k @ '':'' @ jsonQuote v) h) @ ''}''"

subsection \<open>The private helpers\<close>

definition getCacheKey :: "AgentResource \<Rightarrow> string" where
  "getCacheKey resource =
     url resource @ ''::'' @
       (case headers resource of Some h \<Rightarrow> stringifyHeaders h | None \<Rightarrow> [])"

subsection \<open>The lexical shape of a cache key\<close>

text \<open>
  Two resources with different URLs have different cache keys.  The reason is lexical:
  in the text \<open>JSON.stringify\<close> writes for a record of strings, two colons in a row
  occur only inside a quoted string, and no such text continues, from inside one of
  its strings, as another such text.  \<open>lexStep\<close> is the scanner that follows the
  quoting: outside a string, just after a colon, inside a string, after a backslash,
  and \<open>Dead\<close> for text \<open>JSON.stringify\<close> never writes.  \<open>opposite\<close> relates the states of
  two scans of the same text of which one began inside a string and the other outside.
  \<open>keyTail\<close> is the part of the cache key after the separator.
\<close>

datatype lex = Dead | Out | Colon | In | Esc

fun lexStep :: "lex \<Rightarrow> char \<Rightarrow> lex" where
  "lexStep Out c =
     (if c = CHR 0x22 then In
      else if c = CHR '':'' then Colon
      else if c = CHR ''{'' then Out
      else if c = CHR ''}'' then Out
      else if c = CHR '','' then Out
      else Dead)"
| "lexStep Colon c = (if c = CHR 0x22 then In else Dead)"
| "lexStep In c = (if c = CHR 0x22 then Out else if c = CHR 0x5C then Esc else In)"
| "lexStep Esc c = In"
| "lexStep Dead c = Dead"

definition lexRun :: "lex \<Rightarrow> string \<Rightarrow> lex" where
  "lexRun st w = foldl lexStep st w"

fun opposite :: "lex \<Rightarrow> lex \<Rightarrow> bool" where
  "opposite Dead b = True"
| "opposite a Dead = True"
| "opposite Out In = True"
| "opposite Colon In = True"
| "opposite In Out = True"
| "opposite In Colon = True"
| "opposite a b = False"

definition keyTail :: "AgentResource \<Rightarrow> string" where
  "keyTail r = (case headers r of Some h \<Rightarrow> stringifyHeaders h | None \<Rightarrow> [])"

definition getAcceptHeader :: "string \<Rightarrow> string" where
  "getAcceptHeader t =
     (if t = ''api'' then ''application/json, application/xml, text/plain''
      else if t = ''file'' then ''text/plain, text/html, text/markdown''
      else ''*/*'')"

definition processContent :: "body \<Rightarrow> string \<Rightarrow> string" where
  "processContent data t =
     (case data of
        Text s \<Rightarrow> s
      | Structured js str \<Rightarrow>
          if t = ''api'' \<or> t = ''url'' then (case js of Some j \<Rightarrow> j | None \<Rightarrow> str)
          else str)"

text \<open>
  Object spread \<open>{...base, ...extra}\<close>: a key of \<open>extra\<close> already present keeps its
  place and takes the new value, a new key is appended.
\<close>

definition spread :: "(string \<times> string) list \<Rightarrow> (string \<times> string) list \<Rightarrow> (string \<times> string) list" where
  "spread base extra = foldl (\<lambda>acc (k, v). AList.update k v acc) base extra"

definition requestOf :: "AgentResource \<Rightarrow> request" where
  "requestOf resource =
     \<lparr> requestUrl = url resource,
       timeout = 15000,
       requestHeaders =
         spread [(''User-Agent'', ''VSCode-Cloud-Team-Copilot-Agent''),
                 (''Accept'', getAcceptHeader (rtype resource))]
                (case headers resource of Some h \<Rightarrow> h | None \<Rightarrow> []),
       responseType = Some ''text'' \<rparr>"

text \<open>\<open>resource.cacheDuration || this.defaultCacheDuration\<close>: zero is falsy.\<close>

definition lifetime :: "AgentResource \<Rightarrow> int" where
  "lifetime resource =
     (case cacheDuration resource of
        None \<Rightarrow> defaultCacheDuration
      | Some d \<Rightarrow> if d = 0 then defaultCacheDuration else d)"

subsection \<open>\<open>loadResource\<close>\<close>

text \<open>
  \<open>loadResource\<close> is an \<open>async\<close> function with one \<open>await\<close>.  \<open>beginLoad\<close> is its run
  up to the \<open>await\<close>: the cache check, which either returns the cached content or
  reaches \<open>axios.get\<close> with a request.  \<open>finishLoad\<close> is the continuation once the
  request has settled: the rest of the \<open>try\<close> block on success, the \<open>catch\<close> block when
  the request threw.
\<close>

datatype started = Hit ResourceContent | Pending request

definition beginLoad :: "loaderState \<Rightarrow> AgentResource \<Rightarrow> started" where
  "beginLoad s resource =
     (let cacheKey = getCacheKey resource;
          cacheDuration = lifetime resource
      in case map_of (cache s) cacheKey of
           None \<Rightarrow> Pending (requestOf resource)
         | Some c \<Rightarrow>
             if clock s - timestamp c < cacheDuration then
               Hit \<lparr> resourceUrl = url resource, content = cachedContent c,
                     loadedAt = timestamp c, error = None \<rparr>
             else Pending (requestOf resource))"

definition finishLoad :: "exn + body \<Rightarrow> loaderState \<Rightarrow> AgentResource \<Rightarrow> ResourceContent \<times> loaderState" where
  "finishLoad outcome s resource =
     (let cacheKey = getCacheKey resource in
      case outcome of
        Inr data \<Rightarrow>
          (let c = processContent data (rtype resource) in
           (\<lparr> resourceUrl = url resource, content = c, loadedAt = clock s, error = None \<rparr>,
            s\<lparr>cache := AList.update cacheKey \<lparr> cachedContent = c, timestamp = clock s \<rparr> (cache s)\<rparr>))
      | Inl e \<Rightarrow>
          (case map_of (cache s) cacheKey of
             Some c \<Rightarrow>
               (\<lparr> resourceUrl = url resource, content = cachedContent c,
                  loadedAt = timestamp c, error = Some (message e) \<rparr>, s)
           | None \<Rightarrow>
               (\<lparr> resourceUrl = url resource, content = [],
                  loadedAt = clock s, error = Some (message e) \<rparr>, s)))"

definition loadResource :: "body network \<Rightarrow> loaderState \<Rightarrow> AgentResource \<Rightarrow> ResourceContent \<times> loaderState" where
  "loadResource net s resource =
     (case beginLoad s resource of
        Hit res \<Rightarrow> (res, s)
      | Pending req \<Rightarrow>
          (let (latency, outcome) = net (clock s) req
           in finishLoad outcome
                (s\<lparr>netCalls := netCalls s @ [req], clock := clock s + int latency\<rparr>) resource))"

subsection \<open>\<open>clearCache\<close> and \<open>clearExpiredCache\<close>\<close>

definition clearCache :: "loaderState \<Rightarrow> loaderState" where
  "clearCache s = s\<lparr>cache := []\<rparr>"

text \<open>
  The loop of \<open>clearExpiredCache\<close> over \<open>this.cache.entries()\<close>: the second argument
  is what is left to visit, the third the map being emptied.  The method takes no
  argument; the age limit is \<open>this.defaultCacheDuration\<close>.  The counter
  \<open>clearedCount\<close> only feeds a log line and is left out.
\<close>

fun clearExpiredLoop :: "int \<Rightarrow> (string \<times> cached) list \<Rightarrow> (string \<times> cached) list \<Rightarrow> (string \<times> cached) list" where
  "clearExpiredLoop now [] m = m"
| "clearExpiredLoop now ((key, v) # rest) m =
     clearExpiredLoop now rest
       (if now - timestamp v > defaultCacheDuration then AList.delete key m else m)"

definition clearExpiredCache :: "loaderState \<Rightarrow> loaderState" where
  "clearExpiredCache s = s\<lparr>cache := clearExpiredLoop (clock s) (cache s) (cache s)\<rparr>"

subsection \<open>\<open>preloadResources\<close>\<close>

text \<open>
  The deduplication loop: \<open>uniqueResources\<close> is a \<open>Map\<close> from URL to resource, and a
  resource is stored only when its URL is not a key yet.
\<close>

fun uniqueLoop :: "(string \<times> AgentResource) list \<Rightarrow> AgentResource list \<Rightarrow> (string \<times> AgentResource) list" where
  "uniqueLoop u [] = u"
| "uniqueLoop u (resource # rest) =
     uniqueLoop (if map_of u (url resource) = None
                 then AList.update (url resource) resource u else u) rest"

definition uniqueResources :: "AgentResource list \<Rightarrow> AgentResource list" where
  "uniqueResources allResources = map snd (uniqueLoop [] allResources)"

text \<open>
  \<open>Promise.all(batch.map(resource => this.loadResource(resource)))\<close>: every call
  runs to its \<open>await\<close> first, in array order and against the same cache and clock;
  the requests are then in flight together and their continuations run as the
  requests settle, the one with the smallest latency first.
\<close>

fun pendingOf :: "loaderState \<Rightarrow> AgentResource list \<Rightarrow> (AgentResource \<times> request) list" where
  "pendingOf s [] = []"
| "pendingOf s (resource # rest) =
     (case beginLoad s resource of
        Hit res \<Rightarrow> pendingOf s rest
      | Pending req \<Rightarrow> (resource, req) # pendingOf s rest)"

definition settle :: "body network \<Rightarrow> int \<Rightarrow> loaderState \<Rightarrow> AgentResource \<times> request \<Rightarrow> loaderState" where
  "settle net t0 s p =
     (let (latency, outcome) = net t0 (snd p)
      in snd (finishLoad outcome (s\<lparr>clock := t0 + int latency\<rparr>) (fst p)))"

definition loadBatch :: "body network \<Rightarrow> loaderState \<Rightarrow> AgentResource list \<Rightarrow> loaderState" where
  "loadBatch net s batch =
     (let t0 = clock s;
          pending = pendingOf s batch;
          inFlight = s\<lparr>netCalls := netCalls s @ map snd pending\<rparr>
      in foldl (settle net t0) inFlight (sort_key (\<lambda>p. fst (net t0 (snd p))) pending))"

definition batchSize :: nat where
  "batchSize = 5"

function preloadBatches :: "body network \<Rightarrow> loaderState \<Rightarrow> AgentResource list \<Rightarrow> loaderState" where
  "preloadBatches net s resourceArray =
     (if resourceArray = [] then s
      else preloadBatches net (loadBatch net s (take batchSize resourceArray))
             (drop batchSize resourceArray))"
  by pat_completeness auto
termination
  by (relation "measure (\<lambda>(net, s, resourceArray). length resourceArray)")
     (auto simp: batchSize_def)

declare preloadBatches.simps [simp del]

definition preloadResources :: "body network \<Rightarrow> loaderState \<Rightarrow> (string \<times> AgentResource list) list \<Rightarrow> loaderState" where
  "preloadResources net s agentResources =
     (let allResources = concat (map snd agentResources)
      in preloadBatches net s (uniqueResources allResources))"

section \<open>Agents as they arrive from the manifest\<close>

text \<open>
  The manifest is parsed JSON and \<open>validateAgent\<close> takes \<open>any\<close>, so agents are JSON
  values.  A property read gives \<open>None\<close> for \<open>undefined\<close>; reading a property of
  \<open>null\<close> throws a \<open>TypeError\<close>.  Only the properties the sources read are looked up
  (\<open>id\<close>, \<open>name\<close>, \<open>prompt\<close>, \<open>resources\<close>, \<open>templates\<close>, \<open>type\<close>, \<open>url\<close>, \<open>agents\<close>);
  none of them exists on the prototype of a string, a number, a boolean or an array.
  An object is the list of its own properties, each key once.  Numbers are integers
  here: the sources only test a number for being zero and for not being a string.
\<close>

datatype json =
    JNull
  | JBool bool
  | JNum int
  | JStr string
  | JArr "json list"
  | JObj "(string \<times> json) list"

fun getProp :: "json \<Rightarrow> string \<Rightarrow> exn + json option" where
  "getProp JNull p = Inl (TypeError (''Cannot read properties of null (reading '' @ p @ '')''))"
| "getProp (JObj kvs) p = Inr (map_of kvs p)"
| "getProp (JBool b) p = Inr None"
| "getProp (JNum n) p = Inr None"
| "getProp (JStr s) p = Inr None"
| "getProp (JArr xs) p = Inr None"

fun setProp :: "json \<Rightarrow> string \<Rightarrow> json \<Rightarrow> json" where
  "setProp (JObj kvs) p v = JObj (AList.update p v kvs)"
| "setProp j p v = j"

fun truthy :: "json option \<Rightarrow> bool" where
  "truthy None = False"
| "truthy (Some JNull) = False"
| "truthy (Some (JBool b)) = b"
| "truthy (Some (JNum n)) = (n \<noteq> 0)"
| "truthy (Some (JStr s)) = (s \<noteq> [])"
| "truthy (Some (JArr xs)) = True"
| "truthy (Some (JObj kvs)) = True"

fun isString :: "json option \<Rightarrow> bool" where
  "isString (Some (JStr s)) = True"
| "isString v = False"

fun isArray :: "json option \<Rightarrow> bool" where
  "isArray (Some (JArr xs)) = True"
| "isArray v = False"

text \<open>
  The conversion of a value to a string that a template literal \<open>`... ${v} ...`\<close>
  performs, as far as it can throw; \<open>None\<close> says that it yields a string.  A
  primitive converts.  An object is asked for \<open>toString\<close> and then \<open>valueOf\<close>: a parsed
  JSON object with an own property \<open>toString\<close> has no callable \<open>toString\<close>, and neither
  an own \<open>valueOf\<close> nor the inherited one gives a primitive, so the conversion throws;
  without that property the inherited \<open>toString\<close> answers.  An array joins the
  conversions of its elements, \<open>null\<close> counting as the empty string.
\<close>

fun stringConversion :: "json \<Rightarrow> exn option"
  and stringConversions :: "json list \<Rightarrow> exn option" where
  "stringConversion JNull = None"
| "stringConversion (JBool b) = None"
| "stringConversion (JNum n) = None"
| "stringConversion (JStr s) = None"
| "stringConversion (JArr xs) = stringConversions xs"
| "stringConversion (JObj kvs) =
     (case map_of kvs ''toString'' of
        Some v \<Rightarrow> Some (TypeError ''Cannot convert object to primitive value'')
      | None \<Rightarrow> None)"
| "stringConversions [] = None"
| "stringConversions (x # xs) =
     (case stringConversion x of Some e \<Rightarrow> Some e | None \<Rightarrow> stringConversions xs)"

definition templateString :: "json option \<Rightarrow> exn option" where
  "templateString v = (case v of None \<Rightarrow> None | Some j \<Rightarrow> stringConversion j)"

text \<open>
  A log line that interpolates \<open>agent.id\<close>: the property read and the conversion can
  both throw.
\<close>

definition logAgentId :: "json \<Rightarrow> exn option" where
  "logAgentId agent =
     (case getProp agent ''id'' of Inl e \<Rightarrow> Some e | Inr agentId \<Rightarrow> templateString agentId)"

definition bindE :: "exn + 'a \<Rightarrow> ('a \<Rightarrow> exn + 'b) \<Rightarrow> exn + 'b" where
  "bindE m f = (case m of Inl e \<Rightarrow> Inl e | Inr v \<Rightarrow> f v)"

section \<open>Repository Fetcher (repositorySync.ts)\<close>

subsection \<open>\<open>RepositorySync.validateAgent\<close>\<close>

definition RepositorySync_validateAgent :: "json \<Rightarrow> exn + bool" where
  "RepositorySync_validateAgent agent =
     bindE (getProp agent ''id'') (\<lambda>agentId.
       if \<not> truthy agentId then Inr False else
     bindE (getProp agent ''name'') (\<lambda>name.
       if \<not> truthy name then Inr False else
     bindE (getProp agent ''prompt'') (\<lambda>prompt.
       if \<not> truthy prompt then Inr False
       else if \<not> isString agentId then Inr False
       else if \<not> isString name then Inr False
       else if \<not> isString prompt then Inr False
       else Inr True)))"

subsection \<open>\<open>processAgentFiles\<close>\<close>

text \<open>
  The repository as one sync sees it: what a request is answered with.  \<open>axios\<close>
  parses a JSON body, so the data of a file request is a JSON value, a string for
  plain text.
\<close>

type_synonym repository = "request \<Rightarrow> exn + json"

definition fileRequest :: "string \<Rightarrow> request" where
  "fileRequest fileUrl =
     \<lparr> requestUrl = fileUrl, timeout = 5000,
       requestHeaders = [(''Accept'', ''text/plain''), (''Cache-Control'', ''no-cache'')],
       responseType = None \<rparr>"

text \<open>
  One turn of the loop over \<open>agent.templates\<close>: the value pushed to
  \<open>processedTemplates\<close>.  The inner \<open>try\<close> covers the request only; calling
  \<open>startsWith\<close> on a template that is not a string throws past it.
\<close>

definition processTemplate :: "repository \<Rightarrow> string \<Rightarrow> string \<Rightarrow> json \<Rightarrow> exn + json" where
  "processTemplate net repoUrl branch template =
     (case template of
        JStr t \<Rightarrow>
          if startsWith t ''file:'' then
            (let fileName = substring 5 t;
                 fileUrl = buildRawUrl repoUrl branch (''templates/'' @ fileName)
             in case net (fileRequest fileUrl) of
                  Inr data \<Rightarrow> Inr data
                | Inl e \<Rightarrow> Inr template)
          else Inr template
      | JNull \<Rightarrow> Inl (TypeError ''Cannot read properties of null (reading startsWith)'')
      | _ \<Rightarrow> Inl (TypeError ''template.startsWith is not a function''))"

fun processTemplates :: "repository \<Rightarrow> string \<Rightarrow> string \<Rightarrow> json list \<Rightarrow> exn + json list" where
  "processTemplates net repoUrl branch [] = Inr []"
| "processTemplates net repoUrl branch (template # rest) =
     (case processTemplate net repoUrl branch template of
        Inl e \<Rightarrow> Inl e
      | Inr t \<Rightarrow>
          (case processTemplates net repoUrl branch rest of
             Inl e \<Rightarrow> Inl e
           | Inr ts \<Rightarrow> Inr (t # ts)))"

text \<open>
  The body of the outer \<open>try\<close> for one agent, in two steps.  Each returns the agent as
  mutated so far and the exception that ended the step, if any.
\<close>

definition processPrompt :: "repository \<Rightarrow> string \<Rightarrow> string \<Rightarrow> json \<Rightarrow> json \<times> exn option" where
  "processPrompt net repoUrl branch agent =
     (case getProp agent ''prompt'' of
        Inl e \<Rightarrow> (agent, Some e)
      | Inr prompt \<Rightarrow>
          if truthy prompt then
            (case prompt of
               Some (JStr p) \<Rightarrow>
                 if startsWith p ''file:'' then
                   (let fileName = substring 5 p;
                        fileUrl = buildRawUrl repoUrl branch (''agents/'' @ fileName)
                    in case net (fileRequest fileUrl) of
                         Inl e \<Rightarrow> (agent, Some e)
                       | Inr data \<Rightarrow> (setProp agent ''prompt'' data, None))
                 else (agent, None)
             | _ \<Rightarrow> (agent, Some (TypeError ''agent.prompt.startsWith is not a function'')))
          else (agent, None))"

definition processTemplatesOf :: "repository \<Rightarrow> string \<Rightarrow> string \<Rightarrow> json \<Rightarrow> json \<times> exn option" where
  "processTemplatesOf net repoUrl branch agent =
     (case getProp agent ''templates'' of
        Inl e \<Rightarrow> (agent, Some e)
      | Inr templates \<Rightarrow>
          (case templates of
             Some (JArr ts) \<Rightarrow>
               (case processTemplates net repoUrl branch ts of
                  Inl e \<Rightarrow> (agent, Some e)
                | Inr processedTemplates \<Rightarrow>
                    (setProp agent ''templates'' (JArr processedTemplates), None))
           | _ \<Rightarrow> (agent, None)))"

text \<open>
  One turn of the loop over the agents: the agent pushed to \<open>processedAgents\<close>.  The
  \<open>catch\<close> block first logs \<open>`Failed to process agent ${agent.id}:`\<close>, which can throw
  out of the loop, and then pushes the agent as it is.
\<close>

definition processAgent :: "repository \<Rightarrow> string \<Rightarrow> string \<Rightarrow> json \<Rightarrow> exn + json" where
  "processAgent net repoUrl branch agent =
     (case processPrompt net repoUrl branch agent of
        (agent1, Some e) \<Rightarrow>
          (case logAgentId agent1 of Some e' \<Rightarrow> Inl e' | None \<Rightarrow> Inr agent1)
      | (agent1, None) \<Rightarrow>
          (case processTemplatesOf net repoUrl branch agent1 of
             (agent2, Some e) \<Rightarrow>
               (case logAgentId agent2 of Some e' \<Rightarrow> Inl e' | None \<Rightarrow> Inr agent2)
           | (agent2, None) \<Rightarrow> Inr agent2))"

fun processAgentFiles :: "repository \<Rightarrow> string \<Rightarrow> string \<Rightarrow> json list \<Rightarrow> exn + json list" where
  "processAgentFiles net repoUrl branch [] = Inr []"
| "processAgentFiles net repoUrl branch (agent # rest) =
     (case processAgent net repoUrl branch agent of
        Inl e \<Rightarrow> Inl e
      | Inr a \<Rightarrow>
          (case processAgentFiles net repoUrl branch rest of
             Inl e \<Rightarrow> Inl e
           | Inr as \<Rightarrow> Inr (a # as)))"

subsection \<open>\<open>fetchAgents\<close>\<close>

text \<open>
  The extension's \<open>globalState\<close> memento, with the two keys the sources use, and the
  two settings read from the workspace configuration.
\<close>

record memento =
  agentsKey :: "json list option"
  lastSyncKey :: "string option"

record config =
  repositoryUrl :: "string option"
  branch :: "string option"

definition manifestRequest :: "string \<Rightarrow> request" where
  "manifestRequest configUrl =
     \<lparr> requestUrl = configUrl, timeout = 10000,
       requestHeaders = [(''Accept'', ''application/json''), (''Cache-Control'', ''no-cache'')],
       responseType = None \<rparr>"

text \<open>\<open>agentConfig.agents.filter(agent => this.validateAgent(agent))\<close>.\<close>

fun filterE :: "('a \<Rightarrow> exn + bool) \<Rightarrow> 'a list \<Rightarrow> exn + 'a list" where
  "filterE p [] = Inr []"
| "filterE p (x # xs) =
     (case p x of
        Inl e \<Rightarrow> Inl e
      | Inr keep \<Rightarrow>
          (case filterE p xs of
             Inl e \<Rightarrow> Inl e
           | Inr ys \<Rightarrow> Inr (if keep then x # ys else ys)))"

text \<open>
  The log line \<open>`Fetched ${agentConfig.agents.length} agents (version:
  ${agentConfig.version})`\<close> of the \<open>try\<close> block.  It runs once \<open>agents\<close> is known to be
  truthy.  The length of an array or of a string is a number; on an object \<open>length\<close>
  is an own property or \<open>undefined\<close>; on a number or a boolean it is \<open>undefined\<close>.
\<close>

definition logFetched :: "json \<Rightarrow> json option \<Rightarrow> exn option" where
  "logFetched data agents =
     (case (case agents of
              Some (JObj kvs) \<Rightarrow> templateString (map_of kvs ''length'')
            | _ \<Rightarrow> None) of
        Some e \<Rightarrow> Some e
      | None \<Rightarrow>
          (case getProp data ''version'' of
             Inl e \<Rightarrow> Some e
           | Inr version \<Rightarrow> templateString version))"

text \<open>The \<open>try\<close> block of \<open>fetchAgents\<close> up to the value it returns.\<close>

definition fetchAgentsTry :: "repository \<Rightarrow> string \<Rightarrow> string \<Rightarrow> exn + json list" where
  "fetchAgentsTry net repoUrl branchName =
     (let configUrl = buildRawUrl repoUrl branchName ''agents.json'' in
      bindE (net (manifestRequest configUrl)) (\<lambda>data.
        if \<not> truthy (Some data) then Inl (Error ''Invalid agent configuration format'') else
      bindE (getProp data ''agents'') (\<lambda>agents.
        if \<not> truthy agents then Inl (Error ''Invalid agent configuration format'') else
        (case logFetched data agents of
           Some e \<Rightarrow> Inl e
         | None \<Rightarrow>
             (case agents of
                Some (JArr entries) \<Rightarrow>
                  bindE (filterE RepositorySync_validateAgent entries) (\<lambda>validAgents.
                    processAgentFiles net repoUrl branchName validAgents)
              | _ \<Rightarrow> Inl (TypeError ''agentConfig.agents.filter is not a function''))))))"

text \<open>
  \<open>fetchAgents\<close>; \<open>nowIso\<close> is \<open>new Date().toISOString()\<close> at the time the sync is
  recorded.  An unset or empty repository URL is falsy, as is an unset or empty branch:
  \<open>branchOrMaster\<close> is \<open>config.get('branch') || 'master'\<close>.
\<close>

definition branchOrMaster :: "config \<Rightarrow> string" where
  "branchOrMaster cfg =
     (case branch cfg of None \<Rightarrow> ''master'' | Some b \<Rightarrow> if b = [] then ''master'' else b)"

definition fetchAgents :: "repository \<Rightarrow> string \<Rightarrow> config \<Rightarrow> memento \<Rightarrow> (exn + json list) \<times> memento" where
  "fetchAgents net nowIso cfg state =
     (let repoUrl = (case repositoryUrl cfg of None \<Rightarrow> [] | Some u \<Rightarrow> u);
          branchName = branchOrMaster cfg
      in if repoUrl = [] then (Inr [], state)
         else
           (case fetchAgentsTry net repoUrl branchName of
              Inr processedAgents \<Rightarrow>
                (Inr processedAgents, state\<lparr>lastSyncKey := Some nowIso\<rparr>)
            | Inl e \<Rightarrow>
                (let cachedAgents = (case agentsKey state of None \<Rightarrow> [] | Some as \<Rightarrow> as)
                 in if length cachedAgents > 0 then (Inr cachedAgents, state)
                    else (Inl e, state))))"

section \<open>Agent Store (agentManager.ts)\<close>

text \<open>
  The manager holds \<open>agents\<close>, a \<open>Map\<close> keyed by the value of \<open>agent.id\<close> (kept as an
  association list in insertion order), and the \<open>globalState\<close> memento of its
  extension context, which it persists to.
\<close>

record agentManager =
  agents :: "(json option \<times> json) list"
  globalState :: memento

definition validateResource :: "json \<Rightarrow> exn + bool" where
  "validateResource resource =
     bindE (getProp resource ''type'') (\<lambda>t.
       if \<not> truthy t then Inr False else
     bindE (getProp resource ''url'') (\<lambda>u.
       if \<not> truthy u then Inr False
       else if \<not> isString t then Inr False
       else if \<not> isString u then Inr False
       else if \<not> List.member [Some (JStr ''url''), Some (JStr ''file''), Some (JStr ''api'')] t
         then Inr False
       else Inr True))"

text \<open>The loop over \<open>agent.resources\<close>: it returns at the first resource that fails.\<close>

fun validateResources :: "json list \<Rightarrow> exn + bool" where
  "validateResources [] = Inr True"
| "validateResources (resource # rest) =
     (case validateResource resource of
        Inl e \<Rightarrow> Inl e
      | Inr ok \<Rightarrow> if \<not> ok then Inr False else validateResources rest)"

definition AgentManager_validateAgent :: "json \<Rightarrow> exn + bool" where
  "AgentManager_validateAgent agent =
     bindE (getProp agent ''id'') (\<lambda>agentId.
       if \<not> truthy agentId then Inr False else
     bindE (getProp agent ''name'') (\<lambda>name.
       if \<not> truthy name then Inr False else
     bindE (getProp agent ''prompt'') (\<lambda>prompt.
       if \<not> truthy prompt then Inr False
       else if \<not> isString agentId then Inr False
       else if \<not> isString name then Inr False
       else if \<not> isString prompt then Inr False
       else
     bindE (getProp agent ''resources'') (\<lambda>resources.
       if truthy resources then
         (case resources of
            Some (JArr rs) \<Rightarrow> validateResources rs
          | _ \<Rightarrow> Inr False)
       else Inr True))))"

definition saveAgents :: "agentManager \<Rightarrow> agentManager" where
  "saveAgents mgr =
     (let agentsArray = map snd (agents mgr)
      in mgr\<lparr>globalState := (globalState mgr)\<lparr>agentsKey := Some agentsArray\<rparr>\<rparr>)"

text \<open>
  The loop of \<open>updateAgents\<close>: the map filled so far, and the exception that left the
  loop, if any.  A valid agent is stored under \<open>agent.id\<close>; for an invalid one the
  warning \<open>`Invalid agent structure for: ${agent.id}`\<close> is logged, which can throw.
\<close>

fun updateLoop :: "(json option \<times> json) list \<Rightarrow> json list \<Rightarrow> (json option \<times> json) list \<times> exn option" where
  "updateLoop m [] = (m, None)"
| "updateLoop m (agent # rest) =
     (case AgentManager_validateAgent agent of
        Inl e \<Rightarrow> (m, Some e)
      | Inr ok \<Rightarrow>
          if ok then
            (case getProp agent ''id'' of
               Inl e \<Rightarrow> (m, Some e)
             | Inr agentId \<Rightarrow> updateLoop (AList.update agentId agent m) rest)
          else
            (case logAgentId agent of
               Some e \<Rightarrow> (m, Some e)
             | None \<Rightarrow> updateLoop m rest))"

definition updateAgents :: "agentManager \<Rightarrow> json list \<Rightarrow> agentManager \<times> exn option" where
  "updateAgents mgr newAgents =
     (case updateLoop [] newAgents of
        (m, Some e) \<Rightarrow> (mgr\<lparr>agents := m\<rparr>, Some e)
      | (m, None) \<Rightarrow> (saveAgents (mgr\<lparr>agents := m\<rparr>), None))"



section \<open>Example inputs\<close>

text \<open>Concrete resources, states and networks on which the properties below are run.\<close>

definition exampleResource :: AgentResource where
  "exampleResource =
     \<lparr> rtype = ''url'', url = ''https://example.com/doc'', name = None, description = None,
       headers = None, cacheDuration = None \<rparr>"

definition oldEntry :: cached where
  "oldEntry = \<lparr> cachedContent = ''old'', timestamp = 0 \<rparr>"

definition cachedState :: "int \<Rightarrow> loaderState" where
  "cachedState now =
     \<lparr> cache = [(''https://example.com/doc::'', oldEntry)], clock = now, netCalls = [] \<rparr>"

definition emptyState :: "int \<Rightarrow> loaderState" where
  "emptyState now = \<lparr> cache = [], clock = now, netCalls = [] \<rparr>"

definition failingNet :: "body network" where
  "failingNet t req = (10, Inl (AxiosError ''timeout of 15000ms exceeded''))"

definition okNet :: "body network" where
  "okNet t req = (10, Inr (Text ''new''))"

definition resourceA :: AgentResource where
  "resourceA =
     \<lparr> rtype = ''url'', url = ''https://example.com/X'', name = None, description = None,
       headers = None, cacheDuration = Some 60000 \<rparr>"

definition agedState :: loaderState where
  "agedState =
     \<lparr> cache = [(''https://example.com/X::'', oldEntry)], clock = 10000, netCalls = [] \<rparr>"

definition resourceB :: AgentResource where
  "resourceB =
     \<lparr> rtype = ''url'', url = ''https://example.com/X'', name = None, description = None,
       headers = Some [(''Authorization'', ''token'')], cacheDuration = Some 5000 \<rparr>"

definition owners :: "(string \<times> AgentResource list) list" where
  "owners = [(''agent-a'', [resourceA]), (''agent-b'', [resourceB, exampleResource])]"

definition ftpAgent :: json where
  "ftpAgent =
     JObj [(''id'', JStr ''a''), (''name'', JStr ''b''), (''prompt'', JStr ''c''),
           (''resources'', JArr [JObj [(''type'', JStr ''ftp''), (''url'', JStr ''x'')]])]"

definition emptyUrlAgent :: json where
  "emptyUrlAgent =
     JObj [(''id'', JStr ''a''), (''name'', JStr ''b''), (''prompt'', JStr ''c''),
           (''resources'', JArr [JObj [(''type'', JStr ''url''), (''url'', JStr [])]])]"

definition plainAgent :: json where
  "plainAgent = JObj [(''id'', JStr ''p''), (''name'', JStr ''plain''), (''prompt'', JStr ''hello'')]"

definition templatedAgent :: json where
  "templatedAgent =
     JObj [(''id'', JStr ''t''), (''name'', JStr ''templated''), (''prompt'', JStr ''hello''),
           (''templates'', JArr [JStr ''file:missing.md'', JStr ''file:ok.md'', JStr ''plain text''])]"

definition widgetsConfig :: config where
  "widgetsConfig = \<lparr> repositoryUrl = Some ''https://github.com/acme/widgets.git'', branch = Some ''main'' \<rparr>"

definition downRepository :: repository where
  "downRepository req = Inl (AxiosError ''Network Error'')"

definition ftpRepository :: repository where
  "ftpRepository req = Inr (JObj [(''version'', JStr ''1''), (''agents'', JArr [ftpAgent])])"

definition templateRepository :: repository where
  "templateRepository req =
     (if requestUrl req = ''https://raw.githubusercontent.com/acme/widgets/main/templates/ok.md''
      then Inr (JStr ''resolved'')
      else Inl (AxiosError ''Request failed with status code 404''))"

definition noMemento :: memento where
  "noMemento = \<lparr> agentsKey = None, lastSyncKey = None \<rparr>"

definition oddIdAgent :: json where
  "oddIdAgent = JObj [(''id'', JObj [(''toString'', JNum 1)]), (''prompt'', JNum 5)]"

definition oldAgent :: json where
  "oldAgent = JObj [(''id'', JStr ''old''), (''name'', JStr ''previous''), (''prompt'', JStr ''x'')]"

definition heldManager :: agentManager where
  "heldManager =
     \<lparr> agents = [(Some (JStr ''old''), oldAgent)],
       globalState = \<lparr> agentsKey = Some [oldAgent], lastSyncKey = None \<rparr> \<rparr>"

section \<open>Properties\<close>

subsection \<open>Raw URL resolution\<close>


subsection \<open>Loading one resource\<close>

lemma beginLoad_Pending_request:
  "beginLoad s resource = Pending req \<Longrightarrow> req = requestOf resource"
  by (auto simp: beginLoad_def Let_def split: option.splits if_splits)

lemma beginLoad_fresh:
  assumes "map_of (cache s) (getCacheKey resource) = Some c"
      and "clock s - timestamp c < lifetime resource"
  shows "beginLoad s resource =
           Hit \<lparr> resourceUrl = url resource, content = cachedContent c,
                 loadedAt = timestamp c, error = None \<rparr>"
  using assms by (simp add: beginLoad_def)

lemma loadResource_fresh:
  assumes "map_of (cache s) (getCacheKey resource) = Some c"
      and "clock s - timestamp c < lifetime resource"
  shows "loadResource net s resource =
           (\<lparr> resourceUrl = url resource, content = cachedContent c,
               loadedAt = timestamp c, error = None \<rparr>, s)"
  using beginLoad_fresh [OF assms] by (simp add: loadResource_def)

lemma loadResource_pending:
  assumes "beginLoad s resource = Pending req" and "net (clock s) req = (latency, outcome)"
  shows "loadResource net s resource =
           finishLoad outcome
             (s\<lparr>netCalls := netCalls s @ [req], clock := clock s + int latency\<rparr>) resource"
  using assms by (simp add: loadResource_def)

lemma finishLoad_success:
  "finishLoad (Inr data) s resource =
     (\<lparr> resourceUrl = url resource, content = processContent data (rtype resource),
         loadedAt = clock s, error = None \<rparr>,
      s\<lparr>cache := AList.update (getCacheKey resource)
                    \<lparr> cachedContent = processContent data (rtype resource), timestamp = clock s \<rparr>
                    (cache s)\<rparr>)"
  by (simp add: finishLoad_def Let_def)

lemma lifetime_ge_declared:
  "age < (case cacheDuration resource of None \<Rightarrow> defaultCacheDuration | Some d \<Rightarrow> d)
   \<Longrightarrow> age < lifetime resource"
  by (auto simp: lifetime_def defaultCacheDuration_def split: option.splits)

lemma exampleResource_key: "getCacheKey exampleResource = ''https://example.com/doc::''"
  by (simp add: getCacheKey_def exampleResource_def)

lemma exampleResource_lifetime: "lifetime exampleResource = 3600000"
  by (simp add: lifetime_def exampleResource_def defaultCacheDuration_def)

text \<open>
  C1.  When \<open>loadResource\<close> reaches the network and the request fails, with whatever
  exception, the call still returns a \<open>ResourceContent\<close>: its content is that of the
  cache entry under the resource's key if there is one, however old, and the empty
  string if there is none, and its \<open>error\<close> field holds the exception's message.  The
  cache is left as it was.  The failing request is the only step of \<open>loadResource\<close>
  that throws, and it is caught.
\<close>

theorem loadResource_fetch_failure:
  assumes "beginLoad s resource = Pending req"
      and "net (clock s) req = (latency, Inl e)"
  shows "req = requestOf resource \<and>
         loadResource net s resource =
           (\<lparr> resourceUrl = url resource,
               content = (case map_of (cache s) (getCacheKey resource) of
                            Some c \<Rightarrow> cachedContent c | None \<Rightarrow> []),
               loadedAt = (case map_of (cache s) (getCacheKey resource) of
                            Some c \<Rightarrow> timestamp c | None \<Rightarrow> clock s + int latency),
               error = Some (message e) \<rparr>,
            s\<lparr>netCalls := netCalls s @ [req], clock := clock s + int latency\<rparr>)"
proof
  show "req = requestOf resource"
    using assms(1) by (rule beginLoad_Pending_request)
next
  show "loadResource net s resource =
           (\<lparr> resourceUrl = url resource,
               content = (case map_of (cache s) (getCacheKey resource) of
                            Some c \<Rightarrow> cachedContent c | None \<Rightarrow> []),
               loadedAt = (case map_of (cache s) (getCacheKey resource) of
                            Some c \<Rightarrow> timestamp c | None \<Rightarrow> clock s + int latency),
               error = Some (message e) \<rparr>,
            s\<lparr>netCalls := netCalls s @ [req], clock := clock s + int latency\<rparr>)"
    using assms loadResource_pending [of s resource req net latency "Inl e"]
    by (simp add: finishLoad_def split: option.splits)
qed

theorem loadResource_fetch_failure_witness:
  "beginLoad (cachedState 4000000) exampleResource = Pending (requestOf exampleResource)
   \<and> beginLoad (emptyState 7) exampleResource = Pending (requestOf exampleResource)
   \<and> fst (loadResource failingNet (cachedState 4000000) exampleResource) =
       \<lparr> resourceUrl = ''https://example.com/doc'', content = ''old'', loadedAt = 0,
         error = Some ''timeout of 15000ms exceeded'' \<rparr>
   \<and> fst (loadResource failingNet (emptyState 7) exampleResource) =
       \<lparr> resourceUrl = ''https://example.com/doc'', content = [], loadedAt = 17,
         error = Some ''timeout of 15000ms exceeded'' \<rparr>"
proof -
  have stale: "beginLoad (cachedState 4000000) exampleResource = Pending (requestOf exampleResource)"
    by (simp add: beginLoad_def exampleResource_key exampleResource_lifetime cachedState_def
          oldEntry_def)
  have miss: "beginLoad (emptyState 7) exampleResource = Pending (requestOf exampleResource)"
    by (simp add: beginLoad_def emptyState_def)
  have fails: "failingNet t (requestOf exampleResource)
                 = (10, Inl (AxiosError ''timeout of 15000ms exceeded''))" for t
    by (simp add: failingNet_def)
  show ?thesis
    using loadResource_fetch_failure [of "cachedState 4000000" exampleResource
            "requestOf exampleResource" failingNet 10 "AxiosError ''timeout of 15000ms exceeded''"]
          loadResource_fetch_failure [of "emptyState 7" exampleResource
            "requestOf exampleResource" failingNet 10 "AxiosError ''timeout of 15000ms exceeded''"]
          stale miss fails
    by (simp add: exampleResource_key) (simp add: cachedState_def emptyState_def oldEntry_def
          exampleResource_def)
qed

text \<open>
  C2.  When the cache holds an entry under the resource's key (URL and serialised
  headers) whose age \<open>now - timestamp\<close> is strictly below the resource's
  \<open>cacheDuration\<close>, or below the default when none is declared, \<open>loadResource\<close> returns
  that entry's content without an error and leaves the state as it was; in particular
  the log of network requests does not grow.  Hence, when a first load fetches the
  resource with success and a second load of the same resource comes at a time \<open>t\<close>
  within the lifetime, the two loads together issue exactly one request, whatever the
  network would answer to a second one.
\<close>

theorem loadResource_cache_hit:
  assumes "map_of (cache s) (getCacheKey resource) = Some c"
      and "clock s - timestamp c <
             (case cacheDuration resource of None \<Rightarrow> defaultCacheDuration | Some d \<Rightarrow> d)"
  shows "loadResource net s resource =
           (\<lparr> resourceUrl = url resource, content = cachedContent c,
               loadedAt = timestamp c, error = None \<rparr>, s)
         \<and> (beginLoad s0 resource = Pending req
              \<and> net0 (clock s0) req = (latency, Inr data)
              \<and> t - (clock s0 + int latency) <
                   (case cacheDuration resource of None \<Rightarrow> defaultCacheDuration | Some d \<Rightarrow> d)
            \<longrightarrow> (let s1 = snd (loadResource net0 s0 resource);
                     (res, s2) = loadResource net1 (s1\<lparr>clock := t\<rparr>) resource
                 in content res = processContent data (rtype resource)
                    \<and> error res = None
                    \<and> netCalls s2 = netCalls s0 @ [requestOf resource]))"
proof (intro conjI impI)
  show "loadResource net s resource =
           (\<lparr> resourceUrl = url resource, content = cachedContent c,
               loadedAt = timestamp c, error = None \<rparr>, s)"
    using assms(1) lifetime_ge_declared [OF assms(2)] by (rule loadResource_fresh)
next
  assume h: "beginLoad s0 resource = Pending req
              \<and> net0 (clock s0) req = (latency, Inr data)
              \<and> t - (clock s0 + int latency) <
                   (case cacheDuration resource of None \<Rightarrow> defaultCacheDuration | Some d \<Rightarrow> d)"
  define s1 where "s1 = snd (loadResource net0 s0 resource)"
  define e where "e = \<lparr> cachedContent = processContent data (rtype resource),
                         timestamp = clock s0 + int latency \<rparr>"
  have req: "req = requestOf resource"
    using h beginLoad_Pending_request by blast
  have s1: "s1 = s0\<lparr>netCalls := netCalls s0 @ [req], clock := clock s0 + int latency,
                    cache := AList.update (getCacheKey resource) e (cache s0)\<rparr>"
    using h loadResource_pending [of s0 resource req net0 latency "Inr data"]
    by (simp add: s1_def e_def finishLoad_success)
  have look: "map_of (cache (s1\<lparr>clock := t\<rparr>)) (getCacheKey resource) = Some e"
    by (simp add: s1 update_Some_unfold)
  have age: "clock (s1\<lparr>clock := t\<rparr>) - timestamp e < lifetime resource"
    using h lifetime_ge_declared [of "t - timestamp e" resource]
    by (simp add: e_def)
  have "loadResource net1 (s1\<lparr>clock := t\<rparr>) resource =
          (\<lparr> resourceUrl = url resource, content = cachedContent e,
              loadedAt = timestamp e, error = None \<rparr>, s1\<lparr>clock := t\<rparr>)"
    using look age by (rule loadResource_fresh)
  then show "let s1 = snd (loadResource net0 s0 resource);
                     (res, s2) = loadResource net1 (s1\<lparr>clock := t\<rparr>) resource
                 in content res = processContent data (rtype resource)
                    \<and> error res = None
                    \<and> netCalls s2 = netCalls s0 @ [requestOf resource]"
    unfolding s1_def [symmetric] by (simp add: s1 req e_def)
qed

theorem loadResource_cache_hit_witness:
  "map_of (cache (cachedState 5000)) (getCacheKey exampleResource) = Some oldEntry
   \<and> clock (cachedState 5000) - timestamp oldEntry < 3600000
   \<and> loadResource failingNet (cachedState 5000) exampleResource =
       (\<lparr> resourceUrl = ''https://example.com/doc'', content = ''old'', loadedAt = 0,
          error = None \<rparr>, cachedState 5000)
   \<and> beginLoad (emptyState 7) exampleResource = Pending (requestOf exampleResource)
   \<and> okNet 7 (requestOf exampleResource) = (10, Inr (Text ''new''))
   \<and> (1000 :: int) - (7 + 10) < 3600000
   \<and> netCalls (snd (loadResource failingNet
        ((snd (loadResource okNet (emptyState 7) exampleResource))\<lparr>clock := 1000\<rparr>)
        exampleResource)) = [requestOf exampleResource]
   \<and> content (fst (loadResource failingNet
        ((snd (loadResource okNet (emptyState 7) exampleResource))\<lparr>clock := 1000\<rparr>)
        exampleResource)) = ''new''"
proof -
  have look: "map_of (cache (cachedState 5000)) (getCacheKey exampleResource) = Some oldEntry"
    by (simp add: exampleResource_key cachedState_def)
  have age: "clock (cachedState 5000) - timestamp oldEntry <
               (case cacheDuration exampleResource of None \<Rightarrow> defaultCacheDuration | Some d \<Rightarrow> d)"
    by (simp add: cachedState_def oldEntry_def exampleResource_def defaultCacheDuration_def)
  have miss: "beginLoad (emptyState 7) exampleResource = Pending (requestOf exampleResource)"
    by (simp add: beginLoad_def emptyState_def)
  have ok: "okNet (clock (emptyState 7)) (requestOf exampleResource) = (10, Inr (Text ''new''))"
           "okNet 7 (requestOf exampleResource) = (10, Inr (Text ''new''))"
    by (simp_all add: okNet_def)
  have within: "1000 - (clock (emptyState 7) + int 10) <
               (case cacheDuration exampleResource of None \<Rightarrow> defaultCacheDuration | Some d \<Rightarrow> d)"
    by (simp add: emptyState_def exampleResource_def defaultCacheDuration_def)
  have ex: "url exampleResource = ''https://example.com/doc''" "rtype exampleResource = ''url''"
    by (simp_all add: exampleResource_def)
  show ?thesis
    using loadResource_cache_hit [OF look age, of failingNet "emptyState 7"
            "requestOf exampleResource" okNet 10 "Text ''new''" 1000 failingNet]
          look miss ok within
    by (simp add: Let_def split_beta ex processContent_def)
       (simp add: cachedState_def oldEntry_def emptyState_def)
qed

text \<open>
  C10.  A resource that declares \<open>cacheDuration\<close> 0 is loaded exactly as the same
  resource with no \<open>cacheDuration\<close>: its lifetime is the default of one hour
  (3600000 ms), and a cache entry younger than that is returned without a request and
  without an error.
\<close>

theorem loadResource_zero_cacheDuration:
  assumes "cacheDuration resource = Some 0"
  shows "lifetime resource = 3600000
         \<and> loadResource net s resource = loadResource net s (resource\<lparr>cacheDuration := None\<rparr>)
         \<and> (map_of (cache s) (getCacheKey resource) = Some c
              \<and> clock s - timestamp c < 3600000
            \<longrightarrow> loadResource net s resource =
                  (\<lparr> resourceUrl = url resource, content = cachedContent c,
                      loadedAt = timestamp c, error = None \<rparr>, s))"
proof (intro conjI impI)
  show l: "lifetime resource = 3600000"
    using assms by (simp add: lifetime_def defaultCacheDuration_def)
  have k: "getCacheKey (resource\<lparr>cacheDuration := None\<rparr>) = getCacheKey resource"
    by (simp add: getCacheKey_def)
  have r: "requestOf (resource\<lparr>cacheDuration := None\<rparr>) = requestOf resource"
    by (simp add: requestOf_def)
  have l': "lifetime (resource\<lparr>cacheDuration := None\<rparr>) = lifetime resource"
    using assms by (simp add: lifetime_def)
  have b: "beginLoad s' (resource\<lparr>cacheDuration := None\<rparr>) = beginLoad s' resource" for s'
    unfolding beginLoad_def k r l' by (simp split: option.splits)
  have f: "finishLoad out s' (resource\<lparr>cacheDuration := None\<rparr>) = finishLoad out s' resource"
    for out s'
    unfolding finishLoad_def k by (simp add: Let_def split: sum.splits option.splits)
  show "loadResource net s resource = loadResource net s (resource\<lparr>cacheDuration := None\<rparr>)"
    by (simp add: loadResource_def b f split: started.splits prod.splits)
  assume "map_of (cache s) (getCacheKey resource) = Some c \<and> clock s - timestamp c < 3600000"
  then show "loadResource net s resource =
                  (\<lparr> resourceUrl = url resource, content = cachedContent c,
                      loadedAt = timestamp c, error = None \<rparr>, s)"
    using loadResource_fresh [of s resource c net] by (simp add: l)
qed

theorem loadResource_zero_cacheDuration_witness:
  "cacheDuration (exampleResource\<lparr>cacheDuration := Some 0\<rparr>) = Some 0
   \<and> map_of (cache (cachedState 5000)) (getCacheKey (exampleResource\<lparr>cacheDuration := Some 0\<rparr>))
       = Some oldEntry
   \<and> clock (cachedState 5000) - timestamp oldEntry < 3600000
   \<and> loadResource failingNet (cachedState 5000) (exampleResource\<lparr>cacheDuration := Some 0\<rparr>) =
       (\<lparr> resourceUrl = ''https://example.com/doc'', content = ''old'', loadedAt = 0,
          error = None \<rparr>, cachedState 5000)"
proof -
  have z: "cacheDuration (exampleResource\<lparr>cacheDuration := Some 0\<rparr>) = Some 0"
    by simp
  have k: "getCacheKey (exampleResource\<lparr>cacheDuration := Some 0\<rparr>) = ''https://example.com/doc::''"
    by (simp add: getCacheKey_def exampleResource_def)
  have look: "map_of (cache (cachedState 5000)) ''https://example.com/doc::'' = Some oldEntry"
    by (simp add: cachedState_def)
  have age: "clock (cachedState 5000) - timestamp oldEntry < 3600000"
    by (simp add: cachedState_def oldEntry_def)
  from loadResource_zero_cacheDuration [OF z, of failingNet "cachedState 5000" oldEntry,
         THEN conjunct2, THEN conjunct2]
  have "loadResource failingNet (cachedState 5000) (exampleResource\<lparr>cacheDuration := Some 0\<rparr>) =
          (\<lparr> resourceUrl = url (exampleResource\<lparr>cacheDuration := Some 0\<rparr>),
              content = cachedContent oldEntry, loadedAt = timestamp oldEntry,
              error = None \<rparr>, cachedState 5000)"
    using look age by (simp add: k)
  then show ?thesis
    using look age by (simp add: k) (simp add: oldEntry_def exampleResource_def)
qed


subsection \<open>Clearing expired entries\<close>

lemma clearExpiredLoop_map_of:
  "map_of (clearExpiredLoop now entries m) k =
     (if (\<exists>v. (k, v) \<in> set entries \<and> now - timestamp v > defaultCacheDuration)
      then None else map_of m k)"
proof (induction entries arbitrary: m)
  case Nil
  then show ?case by simp
next
  case (Cons p entries)
  obtain key v where p: "p = (key, v)" by (cases p)
  show ?case
    unfolding p by (auto simp: Cons.IH delete_conv)
qed

lemma clearExpiredLoop_distinct:
  "distinct (map fst m) \<Longrightarrow> distinct (map fst (clearExpiredLoop now entries m))"
  by (induction entries arbitrary: m) (auto simp: distinct_delete)

text \<open>
  C9, as the code has it.  \<open>clearExpiredCache\<close> takes no maximum age.  On a cache with
  one entry per key (as a \<open>Map\<close> is), it removes exactly the entries whose age
  \<open>now - timestamp\<close> exceeds the fixed default lifetime of 3600000 ms and leaves every
  entry at or under that age in place.
\<close>

theorem clearExpiredCache_default_age:
  assumes "distinct (map fst (cache s))"
  shows "map_of (cache (clearExpiredCache s)) key =
           (case map_of (cache s) key of
              None \<Rightarrow> None
            | Some v \<Rightarrow> if clock s - timestamp v > 3600000 then None else Some v)
         \<and> distinct (map fst (cache (clearExpiredCache s)))"
proof (intro conjI)
  have mem: "\<And>v. ((key, v) \<in> set (cache s)) = (map_of (cache s) key = Some v)"
    using assms by simp
  show "map_of (cache (clearExpiredCache s)) key =
           (case map_of (cache s) key of
              None \<Rightarrow> None
            | Some v \<Rightarrow> if clock s - timestamp v > 3600000 then None else Some v)"
    by (simp add: clearExpiredCache_def clearExpiredLoop_map_of mem defaultCacheDuration_def
             split: option.splits)
  show "distinct (map fst (cache (clearExpiredCache s)))"
    using assms by (simp add: clearExpiredCache_def clearExpiredLoop_distinct)
qed

theorem clearExpiredCache_default_age_witness:
  "distinct (map fst (cache (cachedState 3600001)))
   \<and> map_of (cache (clearExpiredCache (cachedState 3600001))) ''https://example.com/doc::'' = None
   \<and> map_of (cache (clearExpiredCache (cachedState 3600000))) ''https://example.com/doc::''
       = Some oldEntry"
proof -
  have d: "distinct (map fst (cache (cachedState 3600001)))"
          "distinct (map fst (cache (cachedState 3600000)))"
    by (simp_all add: cachedState_def)
  show ?thesis
    using clearExpiredCache_default_age [OF d(1), of "''https://example.com/doc::''"]
          clearExpiredCache_default_age [OF d(2), of "''https://example.com/doc::''"]
    by (simp add: cachedState_def oldEntry_def)
qed

text \<open>
  C9, with a caller-supplied maximum age as the specification words it, does not
  hold.  A caller that means a maximum age of 1000 ms finds an entry of age 5000 ms
  still in the cache after the sweep, and a caller that means 10000000 ms loses an
  entry of age 4000000 ms: the limit applied is the default lifetime in both cases.
\<close>

theorem clearExpiredCache_ignores_maxAge:
  "clock (cachedState 5000) - timestamp oldEntry > 1000
   \<and> map_of (cache (cachedState 5000)) ''https://example.com/doc::'' = Some oldEntry
   \<and> map_of (cache (clearExpiredCache (cachedState 5000))) ''https://example.com/doc::''
       = Some oldEntry
   \<and> clock (cachedState 4000000) - timestamp oldEntry \<le> 10000000
   \<and> map_of (cache (cachedState 4000000)) ''https://example.com/doc::'' = Some oldEntry
   \<and> map_of (cache (clearExpiredCache (cachedState 4000000))) ''https://example.com/doc::''
       = None"
  by (simp add: cachedState_def oldEntry_def clearExpiredCache_def defaultCacheDuration_def)

subsection \<open>Preloading\<close>

lemma uniqueLoop_map_of:
  "map_of (uniqueLoop u rs) k =
     (case map_of u k of Some r \<Rightarrow> Some r | None \<Rightarrow> find (\<lambda>x. url x = k) rs)"
proof (induction rs arbitrary: u)
  case Nil
  then show ?case by (simp split: option.splits)
next
  case (Cons r rs)
  show ?case
    by (auto simp: Cons.IH update_conv' split: option.splits)
qed

lemma uniqueLoop_distinct:
  "distinct (map fst u) \<Longrightarrow> distinct (map fst (uniqueLoop u rs))"
  by (induction rs arbitrary: u) (auto simp: distinct_update)

lemma uniqueLoop_keys:
  "list_all (\<lambda>p. fst p = url (snd p)) u \<Longrightarrow> list_all (\<lambda>p. fst p = url (snd p)) (uniqueLoop u rs)"
proof (induction rs arbitrary: u)
  case Nil
  then show ?case by simp
next
  case (Cons r rs)
  have "list_all (\<lambda>p. fst p = url (snd p)) (AList.update (url r) r u)"
    using Cons.prems by (induction u) auto
  then show ?case using Cons by simp
qed

lemma update_set_subset: "set (AList.update k v al) \<subseteq> insert (k, v) (set al)"
  by (induction al) auto

lemma uniqueLoop_subset:
  "set (uniqueLoop u rs) \<subseteq> set u \<union> (\<lambda>r. (url r, r)) ` set rs"
proof (induction rs arbitrary: u)
  case Nil
  then show ?case by simp
next
  case (Cons r rs)
  show ?case
  proof (cases "map_of u (url r) = None")
    case True
    have "set (uniqueLoop (AList.update (url r) r u) rs)
            \<subseteq> set (AList.update (url r) r u) \<union> (\<lambda>r. (url r, r)) ` set rs"
      by (rule Cons.IH)
    with update_set_subset [of "url r" r u] True show ?thesis
      by (simp del: AList.update.simps) blast
  next
    case False
    with Cons.IH [of u] show ?thesis by auto
  qed
qed

lemma find_keyed:
  "list_all (\<lambda>p. fst p = url (snd p)) l \<Longrightarrow> find (\<lambda>x. url x = k) (map snd l) = map_of l k"
  by (induction l) auto

lemma keyed_urls:
  "list_all (\<lambda>p. fst p = url (snd p)) l \<Longrightarrow> map url (map snd l) = map fst l"
  by (induction l) auto

lemma uniqueResources_distinct: "distinct (map url (uniqueResources allResources))"
  using uniqueLoop_distinct [of "[]" allResources] uniqueLoop_keys [of "[]" allResources]
  by (simp add: uniqueResources_def keyed_urls del: map_map)

lemma uniqueResources_find:
  "find (\<lambda>x. url x = u) (uniqueResources allResources) = find (\<lambda>x. url x = u) allResources"
  using uniqueLoop_keys [of "[]" allResources]
  by (simp add: uniqueResources_def find_keyed uniqueLoop_map_of)

lemma uniqueResources_subset: "set (uniqueResources allResources) \<subseteq> set allResources"
  using uniqueLoop_subset [of "[]" allResources] by (fastforce simp: uniqueResources_def)


lemma finishLoad_netCalls: "netCalls (snd (finishLoad out s r)) = netCalls s"
  by (simp add: finishLoad_def Let_def split: sum.splits option.splits)

lemma finishLoad_keys:
  "fst ` set (cache (snd (finishLoad out s r))) \<subseteq> insert (getCacheKey r) (fst ` set (cache s))"
  by (auto simp: finishLoad_def Let_def dom_update split: sum.splits option.splits)

lemma settle_netCalls: "netCalls (settle net t0 s p) = netCalls s"
  by (simp add: settle_def finishLoad_netCalls split: prod.splits)

lemma settle_keys:
  "fst ` set (cache (settle net t0 s p)) \<subseteq> insert (getCacheKey (fst p)) (fst ` set (cache s))"
  using finishLoad_keys [of _ "s\<lparr>clock := _\<rparr>" "fst p"]
  by (simp add: settle_def split: prod.splits)

lemma foldl_settle_netCalls: "netCalls (foldl (settle net t0) s ps) = netCalls s"
  by (induction ps arbitrary: s) (simp_all add: settle_netCalls)

lemma foldl_settle_keys:
  "fst ` set (cache (foldl (settle net t0) s ps))
     \<subseteq> fst ` set (cache s) \<union> getCacheKey ` fst ` set ps"
proof (induction ps arbitrary: s)
  case Nil
  then show ?case by simp
next
  case (Cons p ps)
  from Cons.IH [of "settle net t0 s p"] settle_keys [of net t0 s p]
  show ?case by auto
qed

lemma pendingOf_subset: "set (pendingOf s batch) \<subseteq> (\<lambda>r. (r, requestOf r)) ` set batch"
proof (induction batch)
  case Nil
  then show ?case by simp
next
  case (Cons r batch)
  then show ?case
    by (auto split: started.splits dest: beginLoad_Pending_request)
qed

lemma loadBatch_netCalls:
  "netCalls (loadBatch net s batch) = netCalls s @ map snd (pendingOf s batch)"
  by (simp add: loadBatch_def Let_def foldl_settle_netCalls)

lemma loadBatch_keys:
  "fst ` set (cache (loadBatch net s batch)) \<subseteq> fst ` set (cache s) \<union> getCacheKey ` set batch"
proof -
  let ?pending = "pendingOf s batch"
  let ?inFlight = "s\<lparr>netCalls := netCalls s @ map snd ?pending\<rparr>"
  let ?order = "sort_key (\<lambda>p. fst (net (clock s) (snd p))) ?pending"
  have a: "fst ` set ?pending \<subseteq> set batch"
    using pendingOf_subset [of s batch] by auto
  have b: "fst ` set (cache (foldl (settle net (clock s)) ?inFlight ?order))
             \<subseteq> fst ` set (cache ?inFlight) \<union> getCacheKey ` fst ` set ?order"
    by (rule foldl_settle_keys)
  have c: "loadBatch net s batch = foldl (settle net (clock s)) ?inFlight ?order"
    by (simp add: loadBatch_def Let_def)
  have d: "set ?order = set ?pending" "cache ?inFlight = cache s"
    by simp_all
  show ?thesis
    unfolding c using a b unfolding d by blast
qed

lemma preloadBatches_netCalls:
  "\<exists>reqs. netCalls (preloadBatches net s xs) = netCalls s @ reqs
          \<and> set reqs \<subseteq> requestOf ` set xs"
proof (induction net s xs rule: preloadBatches.induct)
  case (1 net s xs)
  show ?case
  proof (cases "xs = []")
    case True
    then show ?thesis by (simp add: preloadBatches.simps)
  next
    case False
    from "1.IH" [OF False] obtain reqs where
      r: "netCalls (preloadBatches net (loadBatch net s (take batchSize xs)) (drop batchSize xs))
            = netCalls (loadBatch net s (take batchSize xs)) @ reqs"
         "set reqs \<subseteq> requestOf ` set (drop batchSize xs)"
      by blast
    have p: "set (map snd (pendingOf s (take batchSize xs))) \<subseteq> requestOf ` set (take batchSize xs)"
      using pendingOf_subset [of s "take batchSize xs"] by auto
    have "netCalls (preloadBatches net s xs)
            = netCalls s @ (map snd (pendingOf s (take batchSize xs)) @ reqs)"
      using False r(1) by (subst preloadBatches.simps) (simp add: loadBatch_netCalls)
    moreover have "set (map snd (pendingOf s (take batchSize xs)) @ reqs) \<subseteq> requestOf ` set xs"
    proof -
      have "requestOf ` set (take batchSize xs) \<subseteq> requestOf ` set xs"
           "requestOf ` set (drop batchSize xs) \<subseteq> requestOf ` set xs"
        using set_take_subset [of batchSize xs] set_drop_subset [of batchSize xs] by blast+
      with p r(2) show ?thesis by (simp del: set_map) blast
    qed
    ultimately show ?thesis by blast
  qed
qed

lemma preloadBatches_keys:
  "fst ` set (cache (preloadBatches net s xs)) \<subseteq> fst ` set (cache s) \<union> getCacheKey ` set xs"
proof (induction net s xs rule: preloadBatches.induct)
  case (1 net s xs)
  show ?case
  proof (cases "xs = []")
    case True
    then show ?thesis by (simp add: preloadBatches.simps)
  next
    case False
    have e: "preloadBatches net s xs
               = preloadBatches net (loadBatch net s (take batchSize xs)) (drop batchSize xs)"
      using False by (subst preloadBatches.simps) simp
    show ?thesis
      unfolding e
      using "1.IH" [OF False] loadBatch_keys [of net s "take batchSize xs"]
            set_take_subset [of batchSize xs] set_drop_subset [of batchSize xs]
      by blast
  qed
qed

lemma finishLoad_keys_mono:
  "fst ` set (cache s) \<subseteq> fst ` set (cache (snd (finishLoad out s r)))"
  by (auto simp: finishLoad_def Let_def dom_update split: sum.splits option.splits)

lemma settle_keys_mono:
  "fst ` set (cache s) \<subseteq> fst ` set (cache (settle net t0 s p))"
  using finishLoad_keys_mono [of "s\<lparr>clock := _\<rparr>" _ "fst p"]
  by (simp add: settle_def split: prod.splits)

lemma foldl_settle_keys_mono:
  "fst ` set (cache s) \<subseteq> fst ` set (cache (foldl (settle net t0) s ps))"
proof (induction ps arbitrary: s)
  case Nil
  then show ?case by simp
next
  case (Cons p ps)
  from Cons.IH [of "settle net t0 s p"] settle_keys_mono [of s net t0 p]
  show ?case by simp
qed

lemma loadBatch_keys_mono:
  "fst ` set (cache s) \<subseteq> fst ` set (cache (loadBatch net s batch))"
  using foldl_settle_keys_mono
          [of "s\<lparr>netCalls := netCalls s @ map snd (pendingOf s batch)\<rparr>" net "clock s"]
  by (simp add: loadBatch_def Let_def)

lemma pendingOf_covers:
  "r \<in> set batch \<Longrightarrow>
     (r, requestOf r) \<in> set (pendingOf s batch) \<or> getCacheKey r \<in> fst ` set (cache s)"
proof (induction batch)
  case Nil
  then show ?case by simp
next
  case (Cons x batch)
  show ?case
  proof (cases "beginLoad s x")
    case (Hit res)
    then have "getCacheKey x \<in> fst ` set (cache s)"
      by (auto simp: beginLoad_def Let_def split: option.splits if_splits dest: map_of_SomeD
               intro: rev_image_eqI)
    with Cons Hit show ?thesis by auto
  next
    case (Pending req)
    then have "req = requestOf x" by (rule beginLoad_Pending_request)
    with Cons Pending show ?thesis by auto
  qed
qed

lemma loadBatch_covers:
  assumes "r \<in> set batch"
  shows "requestOf r \<in> set (netCalls (loadBatch net s batch))
         \<or> getCacheKey r \<in> fst ` set (cache (loadBatch net s batch))"
proof -
  from pendingOf_covers [OF assms, of s]
  show ?thesis
  proof
    assume "(r, requestOf r) \<in> set (pendingOf s batch)"
    then have "requestOf r \<in> snd ` set (pendingOf s batch)"
      by (rule rev_image_eqI) simp
    then show ?thesis by (simp add: loadBatch_netCalls)
  next
    assume "getCacheKey r \<in> fst ` set (cache s)"
    with loadBatch_keys_mono [of s net batch] show ?thesis by blast
  qed
qed

lemma preloadBatches_keys_mono:
  "fst ` set (cache s) \<subseteq> fst ` set (cache (preloadBatches net s xs))"
proof (induction net s xs rule: preloadBatches.induct)
  case (1 net s xs)
  show ?case
  proof (cases "xs = []")
    case True
    then show ?thesis by (simp add: preloadBatches.simps)
  next
    case False
    have e: "preloadBatches net s xs
               = preloadBatches net (loadBatch net s (take batchSize xs)) (drop batchSize xs)"
      using False by (subst preloadBatches.simps) simp
    show ?thesis
      unfolding e
      using "1.IH" [OF False] loadBatch_keys_mono [of s net "take batchSize xs"]
      by blast
  qed
qed

lemma preloadBatches_covers:
  "r \<in> set xs \<Longrightarrow>
     requestOf r \<in> set (netCalls (preloadBatches net s xs))
     \<or> getCacheKey r \<in> fst ` set (cache (preloadBatches net s xs))"
proof (induction net s xs rule: preloadBatches.induct)
  case (1 net s xs)
  then have ne: "xs \<noteq> []" by auto
  let ?s1 = "loadBatch net s (take batchSize xs)"
  have e: "preloadBatches net s xs = preloadBatches net ?s1 (drop batchSize xs)"
    using ne by (subst preloadBatches.simps) simp
  from "1.prems" have "r \<in> set (take batchSize xs) \<or> r \<in> set (drop batchSize xs)"
    using append_take_drop_id [of batchSize xs] by (metis Un_iff set_append)
  then show ?case
  proof
    assume "r \<in> set (take batchSize xs)"
    from loadBatch_covers [OF this, of net s]
    show ?thesis
    proof
      assume "requestOf r \<in> set (netCalls ?s1)"
      moreover obtain reqs where
        "netCalls (preloadBatches net ?s1 (drop batchSize xs)) = netCalls ?s1 @ reqs"
        using preloadBatches_netCalls [of net ?s1 "drop batchSize xs"] by blast
      ultimately show ?thesis unfolding e by simp
    next
      assume "getCacheKey r \<in> fst ` set (cache ?s1)"
      with preloadBatches_keys_mono [of ?s1 net "drop batchSize xs"]
      show ?thesis unfolding e by blast
    qed
  next
    assume "r \<in> set (drop batchSize xs)"
    from "1.IH" [OF ne this] show ?thesis unfolding e .
  qed
qed

lemma lexRun_simps [simp]:
  "lexRun st [] = st" "lexRun st (c # w) = lexRun (lexStep st c) w"
  "lexRun st (v @ w) = lexRun (lexRun st v) w"
  by (simp_all add: lexRun_def)

lemma lexRun_Dead [simp]: "lexRun Dead w = Dead"
  by (induction w) simp_all

lemma hexDigit_plain: "hexDigit n \<noteq> CHR 0x22 \<and> hexDigit n \<noteq> CHR 0x5C"
proof -
  have "hexDigit n \<in> set ''0123456789abcdef''"
    unfolding hexDigit_def by (rule nth_mem) simp
  then show ?thesis by auto
qed

lemma lexRun_escape: "lexRun In (jsonEscape c) = In"
  using hexDigit_plain by (simp add: jsonEscape_def)

lemma lexRun_escaped: "lexRun In (concat (map jsonEscape s)) = In"
  by (induction s) (simp_all add: lexRun_escape)

lemma lexRun_quote:
  "lexRun Out (jsonQuote s) = Out" "lexRun Colon (jsonQuote s) = Out"
  by (simp_all add: jsonQuote_def lexRun_escaped)

lemma lexRun_join:
  "\<forall>x\<in>set items. lexRun Out x = Out \<Longrightarrow> lexRun Out (joinWith '','' items) = Out"
  by (induction "'',''" items rule: joinWith.induct) simp_all

lemma lexRun_headers: "lexRun Out (stringifyHeaders h) = Out"
proof -
  have "\<forall>x\<in>set (map (\<lambda>(k, v). jsonQuote k @ '':'' @ jsonQuote v) h). lexRun Out x = Out"
    by (auto simp: lexRun_quote)
  from lexRun_join [OF this] show ?thesis
    by (simp add: stringifyHeaders_def)
qed

lemma opposite_step: "opposite a b \<Longrightarrow> opposite (lexStep a c) (lexStep b c)"
  by (cases a; cases b) auto

lemma opposite_run: "opposite a b \<Longrightarrow> opposite (lexRun a w) (lexRun b w)"
  by (induction w arbitrary: a b) (simp_all add: opposite_step)

lemma lexRun_inside: "lexRun Out w = Out \<Longrightarrow> lexRun In w \<noteq> Out"
  using opposite_run [of Out In w] by auto

lemma lexRun_colons: "lexRun st ''::'' = In \<or> lexRun st ''::'' = Dead"
  by (cases st) simp_all

lemma headers_not_shifted:
  "stringifyHeaders h1 \<noteq> p @ ''::'' @ stringifyHeaders h2"
proof
  assume e: "stringifyHeaders h1 = p @ ''::'' @ stringifyHeaders h2"
  have "lexRun Out (p @ ''::'' @ stringifyHeaders h2)
          = lexRun (lexRun (lexRun Out p) ''::'') (stringifyHeaders h2)"
    by simp
  moreover from lexRun_colons [of "lexRun Out p"]
  have "lexRun (lexRun (lexRun Out p) ''::'') (stringifyHeaders h2) \<noteq> Out"
    using lexRun_inside [OF lexRun_headers [of h2]] by auto
  ultimately show False
    using lexRun_headers [of h1] e by simp
qed

lemma headers_shape:
  "\<exists>w. stringifyHeaders h = CHR ''{'' # w \<and> last (stringifyHeaders h) = CHR ''}''"
  by (simp add: stringifyHeaders_def)

lemma tail_not_shifted:
  assumes "x \<noteq> []" and "''::'' @ keyTail r1 = x @ ''::'' @ keyTail r2"
  shows False
proof (cases "headers r1")
  case None
  with assms show False
    by (auto simp: keyTail_def dest!: arg_cong [where f = length])
next
  case (Some h1)
  show False
  proof (cases "headers r2")
    case None
    from headers_shape [of h1] have l1: "last (''::'' @ keyTail r1) = CHR ''}''"
      by (auto simp: keyTail_def Some)
    have l2: "last (x @ ''::'' @ keyTail r2) = CHR '':''"
      by (simp add: keyTail_def None)
    have "CHR ''}'' = CHR '':''"
      by (metis l1 l2 assms(2))
    then show False by simp
  next
    case h2: (Some h2)
    from assms(1) obtain c x' where x: "x = c # x'" by (cases x) auto
    with assms(2) have t: "CHR '':'' # keyTail r1 = x' @ ''::'' @ keyTail r2"
      by auto
    show False
    proof (cases x')
      case Nil
      with t have "keyTail r1 = CHR '':'' # keyTail r2" by simp
      with headers_shape [of h1] show False
        by (auto simp: keyTail_def Some)
    next
      case (Cons c' p)
      with t have "stringifyHeaders h1 = p @ ''::'' @ stringifyHeaders h2"
        by (simp add: keyTail_def Some h2)
      with headers_not_shifted show False by blast
    qed
  qed
qed

lemma getCacheKey_url: "getCacheKey r1 = getCacheKey r2 \<Longrightarrow> url r1 = url r2"
proof -
  assume "getCacheKey r1 = getCacheKey r2"
  then have "url r1 @ (''::'' @ keyTail r1) = url r2 @ (''::'' @ keyTail r2)"
    by (simp add: getCacheKey_def keyTail_def)
  then obtain x where
    "(url r1 = url r2 @ x \<and> x @ ''::'' @ keyTail r1 = ''::'' @ keyTail r2)
     \<or> (url r1 @ x = url r2 \<and> ''::'' @ keyTail r1 = x @ ''::'' @ keyTail r2)"
    by (auto simp: append_eq_append_conv2)
  then show "url r1 = url r2"
  proof
    assume a: "url r1 = url r2 @ x \<and> x @ ''::'' @ keyTail r1 = ''::'' @ keyTail r2"
    then have "x = []"
      using tail_not_shifted [of x r2 r1] by auto
    with a show ?thesis by simp
  next
    assume a: "url r1 @ x = url r2 \<and> ''::'' @ keyTail r1 = x @ ''::'' @ keyTail r2"
    then have "x = []"
      using tail_not_shifted [of x r1 r2] by auto
    with a show ?thesis by simp
  qed
qed

lemma distinct_keys: "distinct (map url xs) \<Longrightarrow> distinct (map getCacheKey xs)"
proof (induction xs)
  case Nil
  then show ?case by simp
next
  case (Cons r xs)
  have "getCacheKey r \<notin> getCacheKey ` set xs"
  proof
    assume "getCacheKey r \<in> getCacheKey ` set xs"
    then obtain r' where "r' \<in> set xs" "getCacheKey r = getCacheKey r'" by auto
    with getCacheKey_url [of r r'] Cons.prems show False by auto
  qed
  with Cons show ?case by simp
qed

lemma settle_entry:
  "map_of (cache (settle net t0 st p)) k =
     (case snd (net t0 (snd p)) of
        Inl e \<Rightarrow> map_of (cache st) k
      | Inr data \<Rightarrow>
          if k = getCacheKey (fst p)
          then Some \<lparr> cachedContent = processContent data (rtype (fst p)),
                      timestamp = t0 + int (fst (net t0 (snd p))) \<rparr>
          else map_of (cache st) k)"
  by (auto simp: settle_def finishLoad_def Let_def update_conv' split: prod.splits sum.splits option.splits)

lemma settle_clock: "clock (settle net t0 st p) = t0 + int (fst (net t0 (snd p)))"
  by (simp add: settle_def finishLoad_def Let_def split: prod.splits sum.splits option.splits)

lemma foldl_settle_other:
  "\<forall>p\<in>set ps. getCacheKey (fst p) \<noteq> k \<Longrightarrow>
     map_of (cache (foldl (settle net t0) st ps)) k = map_of (cache st) k"
proof (induction ps arbitrary: st)
  case Nil
  then show ?case by simp
next
  case (Cons q qs)
  then have "map_of (cache (foldl (settle net t0) (settle net t0 st q) qs)) k
               = map_of (cache (settle net t0 st q)) k"
    by simp
  also have "\<dots> = map_of (cache st) k"
    using Cons.prems by (auto simp: settle_entry split: sum.splits)
  finally show ?case by simp
qed

lemma foldl_settle_own:
  assumes "p \<in> set ps"
      and "\<forall>q\<in>set ps. getCacheKey (fst q) = getCacheKey (fst p) \<longrightarrow> q = p"
  shows "map_of (cache (foldl (settle net t0) st ps)) (getCacheKey (fst p))
           = map_of (cache (settle net t0 st p)) (getCacheKey (fst p))"
  using assms
proof (induction ps arbitrary: st)
  case Nil
  then show ?case by simp
next
  case (Cons q qs)
  let ?k = "getCacheKey (fst p)"
  have uniq: "\<forall>q'\<in>set qs. getCacheKey (fst q') = ?k \<longrightarrow> q' = p"
    using Cons.prems(2) by simp
  show ?case
  proof (cases "p \<in> set qs")
    case True
    have "map_of (cache (foldl (settle net t0) (settle net t0 st q) qs)) ?k
            = map_of (cache (settle net t0 (settle net t0 st q) p)) ?k"
      using Cons.IH [OF True uniq] .
    also have "\<dots> = map_of (cache (settle net t0 st p)) ?k"
    proof (cases "q = p")
      case True
      then show ?thesis by (simp add: settle_entry split: sum.splits)
    next
      case False
      then have "getCacheKey (fst q) \<noteq> ?k"
        using Cons.prems(2) by auto
      then show ?thesis by (simp add: settle_entry split: sum.splits)
    qed
    finally show ?thesis by simp
  next
    case False
    with Cons.prems(1) have qp: "q = p" by simp
    have "\<forall>q'\<in>set qs. getCacheKey (fst q') \<noteq> ?k"
      using uniq False by auto
    from foldl_settle_other [OF this, of net t0 "settle net t0 st q"]
    show ?thesis by (simp add: qp)
  qed
qed

lemma foldl_settle_clock:
  "t0 \<le> clock st \<Longrightarrow> t0 \<le> clock (foldl (settle net t0) st ps)"
  by (induction ps arbitrary: st) (simp_all add: settle_clock)

lemma pendingOf_member:
  "(r, req) \<in> set (pendingOf s batch) \<longleftrightarrow> r \<in> set batch \<and> beginLoad s r = Pending req"
  by (induction batch) (auto split: started.splits)

lemma finishLoad_cache_cong:
  "cache sa = cache sb \<Longrightarrow> clock sa = clock sb \<Longrightarrow>
     cache (snd (finishLoad out sa r)) = cache (snd (finishLoad out sb r))"
  by (simp add: finishLoad_def Let_def split: sum.splits option.splits)

lemma loadBatch_unfold:
  "loadBatch net s batch =
     foldl (settle net (clock s)) (s\<lparr>netCalls := netCalls s @ map snd (pendingOf s batch)\<rparr>)
       (sort_key (\<lambda>p. fst (net (clock s) (snd p))) (pendingOf s batch))"
  by (simp add: loadBatch_def Let_def)

lemma loadBatch_other:
  assumes "k \<notin> getCacheKey ` set batch"
  shows "map_of (cache (loadBatch net s batch)) k = map_of (cache s) k"
proof -
  have "\<forall>p\<in>set (sort_key (\<lambda>p. fst (net (clock s) (snd p))) (pendingOf s batch)).
          getCacheKey (fst p) \<noteq> k"
    using assms by (auto simp: pendingOf_member)
  from foldl_settle_other [OF this] show ?thesis
    by (simp add: loadBatch_unfold)
qed

lemma loadBatch_own:
  assumes "r \<in> set batch"
      and "\<forall>r'\<in>set batch. getCacheKey r' = getCacheKey r \<longrightarrow> r' = r"
  shows "map_of (cache (loadBatch net s batch)) (getCacheKey r)
           = map_of (cache (snd (loadResource net s r))) (getCacheKey r)"
proof (cases "beginLoad s r")
  case (Hit res)
  have "\<forall>p\<in>set (sort_key (\<lambda>p. fst (net (clock s) (snd p))) (pendingOf s batch)).
          getCacheKey (fst p) \<noteq> getCacheKey r"
    using assms(2) Hit by (auto simp: pendingOf_member)
  from foldl_settle_other [OF this] show ?thesis
    by (simp add: loadBatch_unfold loadResource_def Hit)
next
  case (Pending req)
  let ?ps = "sort_key (\<lambda>p. fst (net (clock s) (snd p))) (pendingOf s batch)"
  let ?s1 = "s\<lparr>netCalls := netCalls s @ map snd (pendingOf s batch)\<rparr>"
  have mem: "(r, req) \<in> set ?ps"
    using assms(1) Pending by (simp add: pendingOf_member)
  have uniq: "\<forall>q\<in>set ?ps. getCacheKey (fst q) = getCacheKey (fst (r, req)) \<longrightarrow> q = (r, req)"
    using assms(2) Pending by (auto simp: pendingOf_member)
  have "map_of (cache (loadBatch net s batch)) (getCacheKey r)
          = map_of (cache (settle net (clock s) ?s1 (r, req))) (getCacheKey r)"
    using foldl_settle_own [OF mem uniq, of net "clock s" ?s1] by (simp add: loadBatch_unfold)
  also have "cache (settle net (clock s) ?s1 (r, req)) = cache (snd (loadResource net s r))"
    by (auto simp: settle_def loadResource_def Pending split: prod.splits
             intro!: finishLoad_cache_cong)
  finally show ?thesis .
qed

lemma loadBatch_clock: "clock s \<le> clock (loadBatch net s batch)"
  using foldl_settle_clock [of "clock s" "s\<lparr>netCalls := netCalls s @ map snd (pendingOf s batch)\<rparr>"]
  by (simp add: loadBatch_unfold)

lemma requestOf_url: "requestUrl (requestOf r) = url r"
  by (simp add: requestOf_def)

lemma loadBatch_requested:
  assumes "r \<in> set batch"
      and "\<forall>r'\<in>set batch. url r' = url r \<longrightarrow> r' = r"
  shows "requestOf r \<in> set (map snd (pendingOf s batch))
           \<longleftrightarrow> beginLoad s r = Pending (requestOf r)"
proof
  assume "requestOf r \<in> set (map snd (pendingOf s batch))"
  then obtain r' where r': "(r', requestOf r) \<in> set (pendingOf s batch)" by auto
  then have p: "r' \<in> set batch" "beginLoad s r' = Pending (requestOf r)"
    by (simp_all add: pendingOf_member)
  then have "requestOf r = requestOf r'"
    using beginLoad_Pending_request by blast
  then have "url r' = url r"
    using requestOf_url [of r] requestOf_url [of r'] by simp
  with assms(2) p(1) have "r' = r" by simp
  with p(2) show "beginLoad s r = Pending (requestOf r)" by simp
next
  assume "beginLoad s r = Pending (requestOf r)"
  with assms(1) have "(r, requestOf r) \<in> set (pendingOf s batch)"
    by (simp add: pendingOf_member)
  then show "requestOf r \<in> set (map snd (pendingOf s batch))"
    by force
qed

lemma loadResource_local:
  assumes "map_of (cache sa) (getCacheKey r) = map_of (cache sb) (getCacheKey r)"
      and "clock sa = clock sb"
  shows "beginLoad sa r = beginLoad sb r"
    and "map_of (cache (snd (loadResource net sa r))) (getCacheKey r)
           = map_of (cache (snd (loadResource net sb r))) (getCacheKey r)"
proof -
  show b: "beginLoad sa r = beginLoad sb r"
    using assms by (simp add: beginLoad_def split: option.splits)
  show "map_of (cache (snd (loadResource net sa r))) (getCacheKey r)
           = map_of (cache (snd (loadResource net sb r))) (getCacheKey r)"
    using assms
    by (auto simp: loadResource_def b finishLoad_def Let_def update_conv'
             split: started.splits prod.splits sum.splits option.splits)
qed


lemma requestOf_image_url:
  "requestOf r \<in> requestOf ` set xs \<Longrightarrow> url r \<in> url ` set xs"
proof -
  assume "requestOf r \<in> requestOf ` set xs"
  then obtain r' where r': "r' \<in> set xs" "requestOf r = requestOf r'" by auto
  then have "url r = url r'"
    using requestOf_url [of r] requestOf_url [of r'] by simp
  with r'(1) show ?thesis by auto
qed

lemma pendingOf_requests: "set (map snd (pendingOf s batch)) \<subseteq> requestOf ` set batch"
  using pendingOf_subset [of s batch] by auto

lemma pendingOf_distinct:
  "distinct (map url batch) \<Longrightarrow> distinct (map snd (pendingOf s batch))"
proof (induction batch)
  case Nil
  then show ?case by simp
next
  case (Cons r batch)
  show ?case
  proof (cases "beginLoad s r")
    case (Hit res)
    with Cons show ?thesis by simp
  next
    case (Pending req)
    then have req: "req = requestOf r" by (rule beginLoad_Pending_request)
    have "requestOf r \<notin> set (map snd (pendingOf s batch))"
    proof
      assume "requestOf r \<in> set (map snd (pendingOf s batch))"
      with pendingOf_requests [of s batch] have "requestOf r \<in> requestOf ` set batch" by blast
      then have "url r \<in> url ` set batch" by (rule requestOf_image_url)
      with Cons.prems show False by simp
    qed
    with Cons Pending req show ?thesis by simp
  qed
qed

lemma preloadBatches_unfold:
  "xs \<noteq> [] \<Longrightarrow>
     preloadBatches net s xs
       = preloadBatches net (loadBatch net s (take batchSize xs)) (drop batchSize xs)"
  by (subst preloadBatches.simps) simp

lemma preloadBatches_other:
  "k \<notin> getCacheKey ` set xs \<Longrightarrow> map_of (cache (preloadBatches net s xs)) k = map_of (cache s) k"
proof (induction net s xs rule: preloadBatches.induct)
  case (1 net s xs)
  show ?case
  proof (cases "xs = []")
    case True
    then show ?thesis by (simp add: preloadBatches.simps)
  next
    case False
    have a: "k \<notin> getCacheKey ` set (take batchSize xs)" "k \<notin> getCacheKey ` set (drop batchSize xs)"
      using "1.prems" set_take_subset [of batchSize xs] set_drop_subset [of batchSize xs]
      by blast+
    show ?thesis
      using "1.IH" [OF False a(2)] loadBatch_other [OF a(1), of net s]
      by (simp add: preloadBatches_unfold [OF False])
  qed
qed

lemma preloadBatches_clock: "clock s \<le> clock (preloadBatches net s xs)"
proof (induction net s xs rule: preloadBatches.induct)
  case (1 net s xs)
  show ?case
  proof (cases "xs = []")
    case True
    then show ?thesis by (simp add: preloadBatches.simps)
  next
    case False
    from "1.IH" [OF False] loadBatch_clock [of s net "take batchSize xs"]
    show ?thesis by (simp add: preloadBatches_unfold [OF False])
  qed
qed

lemma preloadBatches_each:
  assumes "distinct (map getCacheKey xs)" and "distinct (map url xs)"
  shows "\<exists>reqs. netCalls (preloadBatches net s xs) = netCalls s @ reqs
           \<and> distinct reqs
           \<and> set reqs \<subseteq> requestOf ` set xs
           \<and> (\<forall>r\<in>set xs. \<exists>t. clock s \<le> t
                  \<and> (r \<in> set (take batchSize xs) \<longrightarrow> t = clock s)
                  \<and> map_of (cache (preloadBatches net s xs)) (getCacheKey r)
                      = map_of (cache (snd (loadResource net (s\<lparr>clock := t\<rparr>) r))) (getCacheKey r)
                  \<and> (requestOf r \<in> set reqs
                       \<longleftrightarrow> beginLoad (s\<lparr>clock := t\<rparr>) r = Pending (requestOf r)))"
  using assms
proof (induction net s xs rule: preloadBatches.induct)
  case (1 net s xs)
  show ?case
  proof (cases "xs = []")
    case True
    then show ?thesis by (simp add: preloadBatches.simps)
  next
    case False
    let ?b = "take batchSize xs"
    let ?d = "drop batchSize xs"
    let ?s1 = "loadBatch net s ?b"
    let ?reqs1 = "map snd (pendingOf s ?b)"
    have xs: "xs = ?b @ ?d" by simp
    have dk: "distinct (map getCacheKey ?b)" "distinct (map getCacheKey ?d)"
             "getCacheKey ` set ?b \<inter> getCacheKey ` set ?d = {}"
      using "1.prems"(1) distinct_append [of "map getCacheKey ?b" "map getCacheKey ?d"]
      by (simp_all add: take_map [symmetric] drop_map [symmetric] del: append_take_drop_id)
         (metis append_take_drop_id distinct_append list.set_map map_append)+
    have du: "distinct (map url ?b)" "distinct (map url ?d)"
             "url ` set ?b \<inter> url ` set ?d = {}"
      using "1.prems"(2) distinct_append [of "map url ?b" "map url ?d"]
      by (simp_all add: take_map [symmetric] drop_map [symmetric] del: append_take_drop_id)
         (metis append_take_drop_id distinct_append list.set_map map_append)+
    from "1.IH" [OF False dk(2) du(2)] obtain reqs2 where
      r2: "netCalls (preloadBatches net ?s1 ?d) = netCalls ?s1 @ reqs2"
          "distinct reqs2"
          "set reqs2 \<subseteq> requestOf ` set ?d"
          "\<forall>r\<in>set ?d. \<exists>t. clock ?s1 \<le> t
                  \<and> (r \<in> set (take batchSize ?d) \<longrightarrow> t = clock ?s1)
                  \<and> map_of (cache (preloadBatches net ?s1 ?d)) (getCacheKey r)
                      = map_of (cache (snd (loadResource net (?s1\<lparr>clock := t\<rparr>) r))) (getCacheKey r)
                  \<and> (requestOf r \<in> set reqs2
                       \<longleftrightarrow> beginLoad (?s1\<lparr>clock := t\<rparr>) r = Pending (requestOf r))"
      by blast
    have e: "preloadBatches net s xs = preloadBatches net ?s1 ?d"
      by (rule preloadBatches_unfold [OF False])
    have n1: "netCalls ?s1 = netCalls s @ ?reqs1"
      by (rule loadBatch_netCalls)
    have sub1: "set ?reqs1 \<subseteq> requestOf ` set ?b"
      by (rule pendingOf_requests)
    have disj: "requestOf ` set ?b \<inter> requestOf ` set ?d = {}"
    proof (rule ccontr)
      assume "requestOf ` set ?b \<inter> requestOf ` set ?d \<noteq> {}"
      then obtain r where r: "r \<in> set ?b" "requestOf r \<in> requestOf ` set ?d" by auto
      from requestOf_image_url [OF r(2)] r(1) du(3) show False by auto
    qed
    have c1: "netCalls (preloadBatches net s xs) = netCalls s @ (?reqs1 @ reqs2)"
      by (simp add: e r2(1) n1)
    have c2: "distinct (?reqs1 @ reqs2)"
      using pendingOf_distinct [OF du(1), of s] r2(2) sub1 r2(3) disj
      by (simp del: set_map) blast
    have c3: "set (?reqs1 @ reqs2) \<subseteq> requestOf ` set xs"
    proof -
      have "requestOf ` set ?b \<subseteq> requestOf ` set xs" "requestOf ` set ?d \<subseteq> requestOf ` set xs"
        using set_take_subset [of batchSize xs] set_drop_subset [of batchSize xs] by blast+
      with sub1 r2(3) show ?thesis by (simp del: set_map) blast
    qed
    have c4: "\<exists>t. clock s \<le> t
                  \<and> (r \<in> set ?b \<longrightarrow> t = clock s)
                  \<and> map_of (cache (preloadBatches net s xs)) (getCacheKey r)
                      = map_of (cache (snd (loadResource net (s\<lparr>clock := t\<rparr>) r))) (getCacheKey r)
                  \<and> (requestOf r \<in> set (?reqs1 @ reqs2)
                       \<longleftrightarrow> beginLoad (s\<lparr>clock := t\<rparr>) r = Pending (requestOf r))"
      if r: "r \<in> set xs" for r
    proof (cases "r \<in> set ?b")
      case True
      have kd: "getCacheKey r \<notin> getCacheKey ` set ?d"
        using True dk(3) by auto
      have ku: "\<forall>r'\<in>set ?b. getCacheKey r' = getCacheKey r \<longrightarrow> r' = r"
        using True dk(1) by (auto simp: distinct_map inj_on_def)
      have uu: "\<forall>r'\<in>set ?b. url r' = url r \<longrightarrow> r' = r"
        using True du(1) by (auto simp: distinct_map inj_on_def)
      have "map_of (cache (preloadBatches net s xs)) (getCacheKey r)
              = map_of (cache ?s1) (getCacheKey r)"
        unfolding e by (rule preloadBatches_other [OF kd])
      also have "\<dots> = map_of (cache (snd (loadResource net s r))) (getCacheKey r)"
        by (rule loadBatch_own [OF True ku])
      finally have entry: "map_of (cache (preloadBatches net s xs)) (getCacheKey r)
              = map_of (cache (snd (loadResource net s r))) (getCacheKey r)" .
      have "requestOf r \<notin> set reqs2"
      proof
        assume "requestOf r \<in> set reqs2"
        with r2(3) have "requestOf r \<in> requestOf ` set ?d" by blast
        from requestOf_image_url [OF this] True du(3) show False by auto
      qed
      then have reqd: "requestOf r \<in> set (?reqs1 @ reqs2)
                         \<longleftrightarrow> beginLoad s r = Pending (requestOf r)"
        using loadBatch_requested [OF True uu, of s] by simp
      have "s\<lparr>clock := clock s\<rparr> = s" by simp
      with entry reqd show ?thesis
        by (intro exI [of _ "clock s"]) simp
    next
      case False
      with r xs have rd: "r \<in> set ?d"
        by (metis Un_iff set_append)
      have kb: "getCacheKey r \<notin> getCacheKey ` set ?b"
        using rd dk(3) by auto
      from r2(4) rd obtain t where
        t: "clock ?s1 \<le> t"
           "map_of (cache (preloadBatches net ?s1 ?d)) (getCacheKey r)
              = map_of (cache (snd (loadResource net (?s1\<lparr>clock := t\<rparr>) r))) (getCacheKey r)"
           "requestOf r \<in> set reqs2
              \<longleftrightarrow> beginLoad (?s1\<lparr>clock := t\<rparr>) r = Pending (requestOf r)"
        by blast
      have same: "map_of (cache (?s1\<lparr>clock := t\<rparr>)) (getCacheKey r)
                    = map_of (cache (s\<lparr>clock := t\<rparr>)) (getCacheKey r)"
        using loadBatch_other [OF kb, of net s] by simp
      have clk: "clock (?s1\<lparr>clock := t\<rparr>) = clock (s\<lparr>clock := t\<rparr>)" by simp
      note loc = loadResource_local [OF same clk]
      have "requestOf r \<notin> set ?reqs1"
      proof
        assume "requestOf r \<in> set ?reqs1"
        with sub1 have "requestOf r \<in> requestOf ` set ?b" by blast
        from requestOf_image_url [OF this] rd du(3) show False by auto
      qed
      then have reqd: "requestOf r \<in> set (?reqs1 @ reqs2)
                         \<longleftrightarrow> beginLoad (s\<lparr>clock := t\<rparr>) r = Pending (requestOf r)"
        using t(3) loc(1) by simp
      have "clock s \<le> t"
        using t(1) loadBatch_clock [of s net ?b] by simp
      moreover have "map_of (cache (preloadBatches net s xs)) (getCacheKey r)
                       = map_of (cache (snd (loadResource net (s\<lparr>clock := t\<rparr>) r))) (getCacheKey r)"
        unfolding e using t(2) loc(2) [of net] by simp
      ultimately show ?thesis
        using False reqd by blast
    qed
    from c1 c2 c3 c4 show ?thesis by blast
  qed
qed

text \<open>
  C8.  \<open>preloadResources\<close> loads the list \<open>uniqueResources\<close> makes of the flattened
  per-owner lists.  That list has one resource per URL, and for every URL it is the
  first resource with that URL in flattening order.  Each resource \<open>r\<close> of the list is
  loaded with its own settings, as \<open>loadResource\<close> would load it from the cache as it
  was, at the time \<open>t\<close> its batch starts (the time of the call for the first batch):
  afterwards the cache holds under the key of \<open>r\<close> what \<open>loadResource\<close> would leave
  there, and the request of \<open>r\<close> is among the requests issued exactly when
  \<open>loadResource\<close> would issue it, which is decided by the headers and the
  \<open>cacheDuration\<close> of \<open>r\<close>.  No request is issued twice, every request issued is the
  request of a resource of the list, and a cache key that is not the key of a
  resource of the list keeps its entry: a later declaration of a URL already seen,
  with its own headers or \<open>cacheDuration\<close>, is neither fetched nor cached nor
  consulted.
\<close>

theorem preloadResources_first_seen_wins:
  "distinct (map url (uniqueResources (concat (map snd agentResources))))
   \<and> set (uniqueResources (concat (map snd agentResources)))
       \<subseteq> set (concat (map snd agentResources))
   \<and> find (\<lambda>x. url x = u) (uniqueResources (concat (map snd agentResources)))
       = find (\<lambda>x. url x = u) (concat (map snd agentResources))
   \<and> (\<exists>reqs. netCalls (preloadResources net s agentResources) = netCalls s @ reqs
         \<and> distinct reqs
         \<and> set reqs \<subseteq> requestOf ` set (uniqueResources (concat (map snd agentResources)))
         \<and> (\<forall>r. r \<in> set (uniqueResources (concat (map snd agentResources))) \<longrightarrow>
               (\<exists>t. clock s \<le> t
                  \<and> (r \<in> set (take batchSize (uniqueResources (concat (map snd agentResources))))
                       \<longrightarrow> t = clock s)
                  \<and> map_of (cache (preloadResources net s agentResources)) (getCacheKey r)
                      = map_of (cache (snd (loadResource net (s\<lparr>clock := t\<rparr>) r))) (getCacheKey r)
                  \<and> (requestOf r \<in> set reqs
                       \<longleftrightarrow> beginLoad (s\<lparr>clock := t\<rparr>) r = Pending (requestOf r)))))
   \<and> (\<forall>k. k \<notin> getCacheKey ` set (uniqueResources (concat (map snd agentResources))) \<longrightarrow>
          map_of (cache (preloadResources net s agentResources)) k = map_of (cache s) k)
   \<and> fst ` set (cache (preloadResources net s agentResources))
       \<subseteq> fst ` set (cache s) \<union> getCacheKey ` set (uniqueResources (concat (map snd agentResources)))
   \<and> (\<forall>r. r \<in> set (uniqueResources (concat (map snd agentResources))) \<longrightarrow>
          requestOf r \<in> set (netCalls (preloadResources net s agentResources))
          \<or> getCacheKey r \<in> fst ` set (cache (preloadResources net s agentResources)))"
proof -
  let ?U = "uniqueResources (concat (map snd agentResources))"
  have p: "preloadResources net s agentResources = preloadBatches net s ?U"
    by (simp add: preloadResources_def)
  have du: "distinct (map url ?U)"
    by (rule uniqueResources_distinct)
  then have dk: "distinct (map getCacheKey ?U)"
    by (rule distinct_keys)
  from preloadBatches_each [OF dk du, of net s]
  have each: "\<exists>reqs. netCalls (preloadBatches net s ?U) = netCalls s @ reqs
         \<and> distinct reqs
         \<and> set reqs \<subseteq> requestOf ` set ?U
         \<and> (\<forall>r. r \<in> set ?U \<longrightarrow>
               (\<exists>t. clock s \<le> t
                  \<and> (r \<in> set (take batchSize ?U) \<longrightarrow> t = clock s)
                  \<and> map_of (cache (preloadBatches net s ?U)) (getCacheKey r)
                      = map_of (cache (snd (loadResource net (s\<lparr>clock := t\<rparr>) r))) (getCacheKey r)
                  \<and> (requestOf r \<in> set reqs
                       \<longleftrightarrow> beginLoad (s\<lparr>clock := t\<rparr>) r = Pending (requestOf r))))"
    by blast
  have other: "\<forall>k. k \<notin> getCacheKey ` set ?U \<longrightarrow>
                 map_of (cache (preloadBatches net s ?U)) k = map_of (cache s) k"
    by (simp add: preloadBatches_other)
  have keys: "fst ` set (cache (preloadBatches net s ?U))
                \<subseteq> fst ` set (cache s) \<union> getCacheKey ` set ?U"
    by (rule preloadBatches_keys)
  have cov: "\<forall>r. r \<in> set ?U \<longrightarrow>
               requestOf r \<in> set (netCalls (preloadBatches net s ?U))
               \<or> getCacheKey r \<in> fst ` set (cache (preloadBatches net s ?U))"
    by (simp add: preloadBatches_covers)
  show ?thesis
    unfolding p
    using du uniqueResources_subset [of "concat (map snd agentResources)"]
          uniqueResources_find [of u "concat (map snd agentResources)"] each other keys cov
    by (intro conjI)
qed

lemma owners_unique: "uniqueResources (concat (map snd owners)) = [resourceA, exampleResource]"
  by (simp add: owners_def uniqueResources_def resourceA_def resourceB_def exampleResource_def)

lemma owners_keys:
  "getCacheKey resourceB \<noteq> getCacheKey resourceA"
  "getCacheKey resourceB \<noteq> getCacheKey exampleResource"
  by (simp_all add: getCacheKey_def resourceA_def resourceB_def exampleResource_def
        stringifyHeaders_def)

theorem preloadResources_first_seen_wins_witness:
  "concat (map snd owners) = [resourceA, resourceB, exampleResource]
   \<and> url resourceB = url resourceA
   \<and> cacheDuration resourceA = Some 60000
   \<and> cacheDuration resourceB = Some 5000
   \<and> uniqueResources (concat (map snd owners)) = [resourceA, exampleResource]
   \<and> find (\<lambda>x. url x = url resourceB) (concat (map snd owners)) = Some resourceA
   \<and> beginLoad agedState resourceB = Pending (requestOf resourceB)
   \<and> requestOf resourceA \<notin> set (netCalls (preloadResources okNet agedState owners))
   \<and> requestOf resourceB \<notin> set (netCalls (preloadResources okNet agedState owners))
   \<and> requestOf exampleResource \<in> set (netCalls (preloadResources okNet agedState owners))
   \<and> map_of (cache (preloadResources okNet agedState owners)) (getCacheKey resourceA)
       = Some oldEntry
   \<and> map_of (cache (preloadResources okNet agedState owners)) (getCacheKey exampleResource)
       = Some \<lparr> cachedContent = ''new'', timestamp = 10010 \<rparr>
   \<and> map_of (cache (preloadResources okNet agedState owners)) (getCacheKey resourceB) = None"
proof -
  let ?s' = "preloadResources okNet agedState owners"
  have all: "concat (map snd owners) = [resourceA, resourceB, exampleResource]"
    by (simp add: owners_def)
  have same: "url resourceB = url resourceA"
    by (simp add: resourceA_def resourceB_def)
  have durations: "cacheDuration resourceA = Some 60000" "cacheDuration resourceB = Some 5000"
    by (simp_all add: resourceA_def resourceB_def)
  have keyA: "getCacheKey resourceA = ''https://example.com/X::''"
    by (simp add: getCacheKey_def resourceA_def)
  have freshA: "beginLoad agedState resourceA =
                  Hit \<lparr> resourceUrl = url resourceA, content = cachedContent oldEntry,
                        loadedAt = timestamp oldEntry, error = None \<rparr>"
  proof (rule beginLoad_fresh)
    show "map_of (cache agedState) (getCacheKey resourceA) = Some oldEntry"
      by (simp add: keyA agedState_def)
    show "clock agedState - timestamp oldEntry < lifetime resourceA"
      by (simp add: agedState_def oldEntry_def lifetime_def resourceA_def)
  qed
  have staleB: "beginLoad agedState resourceB = Pending (requestOf resourceB)"
    using owners_keys(1)
    by (simp add: beginLoad_def agedState_def keyA)
  have missE: "beginLoad agedState exampleResource = Pending (requestOf exampleResource)"
    by (simp add: beginLoad_def agedState_def exampleResource_key)
  have loadA: "loadResource okNet agedState resourceA =
                 (\<lparr> resourceUrl = url resourceA, content = cachedContent oldEntry,
                     loadedAt = timestamp oldEntry, error = None \<rparr>, agedState)"
    by (simp add: loadResource_def freshA)
  have loadE: "map_of (cache (snd (loadResource okNet agedState exampleResource)))
                 (getCacheKey exampleResource)
               = Some \<lparr> cachedContent = ''new'', timestamp = 10010 \<rparr>"
  proof -
    have "loadResource okNet agedState exampleResource =
            finishLoad (Inr (Text ''new''))
              (agedState\<lparr>netCalls := netCalls agedState @ [requestOf exampleResource],
                         clock := clock agedState + 10\<rparr>) exampleResource"
      by (simp add: loadResource_def missE okNet_def)
    then show ?thesis
      by (simp add: finishLoad_success processContent_def update_conv' agedState_def)
  qed
  have self: "agedState\<lparr>clock := clock agedState\<rparr> = agedState" by simp
  note t = preloadResources_first_seen_wins [of owners "url resourceB" okNet agedState,
             unfolded owners_unique]
  note t3 = t [THEN conjunct2, THEN conjunct2, THEN conjunct1]
  note t4 = t [THEN conjunct2, THEN conjunct2, THEN conjunct2, THEN conjunct1]
  note t5 = t [THEN conjunct2, THEN conjunct2, THEN conjunct2, THEN conjunct2, THEN conjunct1]
  have f: "find (\<lambda>x. url x = url resourceB) (concat (map snd owners)) = Some resourceA"
    using t3 by (simp add: same)
  from t4 obtain reqs where
    reqs1: "netCalls ?s' = netCalls agedState @ reqs"
    and reqs2: "set reqs \<subseteq> requestOf ` set [resourceA, exampleResource]"
    and each: "\<forall>r. r \<in> set [resourceA, exampleResource] \<longrightarrow>
               (\<exists>t. clock agedState \<le> t
                  \<and> (r \<in> set (take batchSize [resourceA, exampleResource])
                       \<longrightarrow> t = clock agedState)
                  \<and> map_of (cache ?s') (getCacheKey r)
                      = map_of (cache (snd (loadResource okNet (agedState\<lparr>clock := t\<rparr>) r)))
                          (getCacheKey r)
                  \<and> (requestOf r \<in> set reqs
                       \<longleftrightarrow> beginLoad (agedState\<lparr>clock := t\<rparr>) r = Pending (requestOf r)))"
    by (elim exE conjE)
  have calls: "set (netCalls ?s') = set reqs"
    using reqs1 by (simp add: agedState_def)
  have inA: "resourceA \<in> set [resourceA, exampleResource]"
            "resourceA \<in> set (take batchSize [resourceA, exampleResource])"
    by (simp_all add: batchSize_def)
  have inE: "exampleResource \<in> set [resourceA, exampleResource]"
            "exampleResource \<in> set (take batchSize [resourceA, exampleResource])"
    by (simp_all add: batchSize_def)
  from each [THEN spec, of resourceA, THEN mp, OF inA(1)] obtain ta where
    ta: "resourceA \<in> set (take batchSize [resourceA, exampleResource])
           \<longrightarrow> ta = clock agedState"
    and ta1: "map_of (cache ?s') (getCacheKey resourceA)
             = map_of (cache (snd (loadResource okNet (agedState\<lparr>clock := ta\<rparr>) resourceA)))
                 (getCacheKey resourceA)"
    and ta2: "requestOf resourceA \<in> set reqs
             \<longleftrightarrow> beginLoad (agedState\<lparr>clock := ta\<rparr>) resourceA = Pending (requestOf resourceA)"
    by (elim exE conjE)
  from ta inA(2) have "ta = clock agedState" by (rule mp)
  with self have sa: "agedState\<lparr>clock := ta\<rparr> = agedState" by simp
  from each [THEN spec, of exampleResource, THEN mp, OF inE(1)] obtain te where
    te: "exampleResource \<in> set (take batchSize [resourceA, exampleResource])
           \<longrightarrow> te = clock agedState"
    and te1: "map_of (cache ?s') (getCacheKey exampleResource)
             = map_of (cache (snd (loadResource okNet (agedState\<lparr>clock := te\<rparr>) exampleResource)))
                 (getCacheKey exampleResource)"
    and te2: "requestOf exampleResource \<in> set reqs
             \<longleftrightarrow> beginLoad (agedState\<lparr>clock := te\<rparr>) exampleResource
                   = Pending (requestOf exampleResource)"
    by (elim exE conjE)
  from te inE(2) have "te = clock agedState" by (rule mp)
  with self have se: "agedState\<lparr>clock := te\<rparr> = agedState" by simp
  note a = ta1 [unfolded sa] ta2 [unfolded sa]
  note e = te1 [unfolded se] te2 [unfolded se]
  have reqAB: "requestOf resourceB \<noteq> requestOf resourceA"
    by (simp add: requestOf_def spread_def resourceA_def resourceB_def)
  have reqEB: "requestOf resourceB \<noteq> requestOf exampleResource"
    by (simp add: requestOf_def spread_def exampleResource_def resourceB_def)
  have noA: "requestOf resourceA \<notin> set (netCalls ?s')"
    unfolding calls a(2) by (simp add: freshA)
  have yesE: "requestOf exampleResource \<in> set (netCalls ?s')"
    unfolding calls e(2) by (rule missE)
  have noB: "requestOf resourceB \<notin> set (netCalls ?s')"
  proof
    assume "requestOf resourceB \<in> set (netCalls ?s')"
    then have "requestOf resourceB \<in> set reqs" unfolding calls .
    with reqs2 have "requestOf resourceB \<in> requestOf ` set [resourceA, exampleResource]" ..
    then have "requestOf resourceB = requestOf resourceA
                 \<or> requestOf resourceB = requestOf exampleResource"
      by simp
    with reqAB reqEB show False by simp
  qed
  have entryA: "map_of (cache ?s') (getCacheKey resourceA) = Some oldEntry"
    unfolding a(1) loadA by (simp add: keyA agedState_def)
  have entryE: "map_of (cache ?s') (getCacheKey exampleResource)
                  = Some \<lparr> cachedContent = ''new'', timestamp = 10010 \<rparr>"
    unfolding e(1) by (rule loadE)
  have notin: "getCacheKey resourceB \<notin> getCacheKey ` set [resourceA, exampleResource]"
    using owners_keys by simp
  have "map_of (cache ?s') (getCacheKey resourceB) = map_of (cache agedState) (getCacheKey resourceB)"
    using t5 [THEN spec, of "getCacheKey resourceB", THEN mp, OF notin] .
  also have "\<dots> = None"
    using owners_keys(1) by (simp add: agedState_def keyA)
  finally have entryB: "map_of (cache ?s') (getCacheKey resourceB) = None" .
  show ?thesis
    using all same durations owners_unique f staleB noA noB yesE entryA entryE entryB
    by (intro conjI)
qed


subsection \<open>Validation of manifest entries\<close>

text \<open>
  C3.  The Fetcher's \<open>validateAgent\<close> drops an entry whose \<open>id\<close>, \<open>name\<close> or \<open>prompt\<close>
  is missing, empty or not a string, but it never looks at \<open>resources\<close>.  The entry
  \<open>{id:"a", name:"b", prompt:"c", resources:[{type:"ftp", url:"x"}]}\<close> and the same
  entry with a resource of empty \<open>url\<close> pass it and are part of what \<open>fetchAgents\<close>
  returns; the Agent Store's \<open>validateAgent\<close> rejects both.
\<close>

theorem validateAgent_resources_unchecked:
  "RepositorySync_validateAgent ftpAgent = Inr True
   \<and> AgentManager_validateAgent ftpAgent = Inr False
   \<and> RepositorySync_validateAgent emptyUrlAgent = Inr True
   \<and> AgentManager_validateAgent emptyUrlAgent = Inr False
   \<and> fst (fetchAgents ftpRepository ''2025-08-11T06:54:42.000Z'' widgetsConfig noMemento)
       = Inr [ftpAgent]
   \<and> RepositorySync_validateAgent (JObj [(''id'', JStr []), (''name'', JStr ''a''), (''prompt'', JStr ''b'')])
       = Inr False
   \<and> RepositorySync_validateAgent (JObj [(''id'', JStr ''a''), (''name'', JStr ''b'')]) = Inr False
   \<and> RepositorySync_validateAgent (JObj [(''id'', JNum 7), (''name'', JStr ''a''), (''prompt'', JStr ''b'')])
       = Inr False"
  by code_simp

subsection \<open>Failure of the manifest request\<close>

text \<open>
  C5, as the code has it.  When a repository URL is configured and the request for the
  manifest throws, \<open>fetchAgents\<close> returns the agent list persisted under the
  \<open>agents\<close> key if that list is not empty, and throws the request's exception again
  if the key is unset or holds the empty list.  The memento is unchanged either way.
\<close>

theorem fetchAgents_manifest_failure:
  assumes "repositoryUrl cfg = Some repoUrl" and "repoUrl \<noteq> []"
      and "net (manifestRequest (buildRawUrl repoUrl (branchOrMaster cfg) ''agents.json'')) = Inl e"
  shows "fetchAgents net nowIso cfg state =
           (case agentsKey state of
              Some (a # as) \<Rightarrow> (Inr (a # as), state)
            | _ \<Rightarrow> (Inl e, state))"
proof -
  have "fetchAgentsTry net repoUrl (branchOrMaster cfg) = Inl e"
    using assms(3) by (simp add: fetchAgentsTry_def bindE_def)
  then show ?thesis
    using assms(1,2) by (simp add: fetchAgents_def split: option.splits list.splits)
qed

theorem fetchAgents_manifest_failure_witness:
  "repositoryUrl widgetsConfig = Some ''https://github.com/acme/widgets.git''
   \<and> fetchAgents downRepository ''2025-08-11T06:54:42.000Z'' widgetsConfig
        (noMemento\<lparr>agentsKey := Some [plainAgent]\<rparr>)
       = (Inr [plainAgent], noMemento\<lparr>agentsKey := Some [plainAgent]\<rparr>)
   \<and> fetchAgents downRepository ''2025-08-11T06:54:42.000Z'' widgetsConfig noMemento
       = (Inl (AxiosError ''Network Error''), noMemento)"
proof -
  have u: "repositoryUrl widgetsConfig = Some ''https://github.com/acme/widgets.git''"
    by (simp add: widgetsConfig_def)
  have n: "''https://github.com/acme/widgets.git'' \<noteq> []" by simp
  have d: "downRepository (manifestRequest (buildRawUrl ''https://github.com/acme/widgets.git''
             (branchOrMaster widgetsConfig) ''agents.json'')) = Inl (AxiosError ''Network Error'')"
    by (simp add: downRepository_def)
  show ?thesis
    using fetchAgents_manifest_failure [of widgetsConfig "''https://github.com/acme/widgets.git''"
            downRepository "AxiosError ''Network Error''" "''2025-08-11T06:54:42.000Z''"
            "noMemento\<lparr>agentsKey := Some [plainAgent]\<rparr>", OF u n d]
          fetchAgents_manifest_failure [of widgetsConfig "''https://github.com/acme/widgets.git''"
            downRepository "AxiosError ''Network Error''" "''2025-08-11T06:54:42.000Z''"
            noMemento, OF u n d]
          u
    by (simp add: noMemento_def)
qed

text \<open>
  C5, with zero agents reported as the specification words it, does not hold.  With
  no persisted agents, or with an empty persisted list, a failed manifest request
  makes \<open>fetchAgents\<close> throw; it does not return an empty list of agents.
\<close>

theorem fetchAgents_rethrows_without_cache:
  "downRepository (manifestRequest (buildRawUrl ''https://github.com/acme/widgets.git'' ''main'' ''agents.json''))
     = Inl (AxiosError ''Network Error'')
   \<and> fetchAgents downRepository ''2025-08-11T06:54:42.000Z'' widgetsConfig noMemento
       = (Inl (AxiosError ''Network Error''), noMemento)
   \<and> fetchAgents downRepository ''2025-08-11T06:54:42.000Z'' widgetsConfig (noMemento\<lparr>agentsKey := Some []\<rparr>)
       = (Inl (AxiosError ''Network Error''), noMemento\<lparr>agentsKey := Some []\<rparr>)"
  by code_simp

subsection \<open>Replacing the held agents\<close>








text \<open>
  The warning for a rejected agent is part of the loop: an agent without a name whose
  \<open>id\<close> is the object \<open>{toString: 1}\<close> is rejected by \<open>validateAgent\<close> without an
  exception, and the warning then throws, after the map was cleared and before
  anything is persisted.
\<close>

lemma updateAgents_warning_throws:
  "AgentManager_validateAgent oddIdAgent = Inr False
   \<and> updateAgents heldManager [plainAgent, oddIdAgent] =
       (heldManager\<lparr>agents := [(Some (JStr ''p''), plainAgent)]\<rparr>,
        Some (TypeError ''Cannot convert object to primitive value''))"
  by (simp add: updateAgents_def AgentManager_validateAgent_def bindE_def logAgentId_def
        templateString_def oddIdAgent_def plainAgent_def)



subsection \<open>Template references\<close>

lemma processTemplates_strings:
  "processTemplates net repoUrl branchName (map JStr ts) =
     Inr (map (\<lambda>t. if startsWith t ''file:''
                    then (case net (fileRequest (buildRawUrl repoUrl branchName
                                      (''templates/'' @ substring 5 t))) of
                            Inl e \<Rightarrow> JStr t
                          | Inr data \<Rightarrow> data)
                    else JStr t) ts)"
  by (induction ts) (auto simp: processTemplate_def Let_def split: sum.splits)

lemma validateAgent_shape:
  assumes "RepositorySync_validateAgent a = Inr True"
  shows "\<exists>kvs i p. a = JObj kvs \<and> map_of kvs ''id'' = Some (JStr i)
                   \<and> map_of kvs ''prompt'' = Some (JStr p)"
proof (cases a)
  case (JObj kvs)
  have "isString (map_of kvs ''id'')" "isString (map_of kvs ''prompt'')"
    using assms unfolding JObj
    by (auto simp: RepositorySync_validateAgent_def bindE_def split: if_splits)
  then obtain i p where "map_of kvs ''id'' = Some (JStr i)" "map_of kvs ''prompt'' = Some (JStr p)"
    by (metis isString.elims(2))
  with JObj show ?thesis by blast
qed (use assms in \<open>simp_all add: RepositorySync_validateAgent_def bindE_def\<close>)

lemma logAgentId_string: "map_of kvs ''id'' = Some (JStr i) \<Longrightarrow> logAgentId (JObj kvs) = None"
  by (simp add: logAgentId_def templateString_def)

lemma processPrompt_keeps_id:
  assumes "map_of kvs ''prompt'' = Some (JStr p)"
  shows "\<exists>kvs1. fst (processPrompt net repoUrl branchName (JObj kvs)) = JObj kvs1
                \<and> map_of kvs1 ''id'' = map_of kvs ''id''"
  using assms
  by (auto simp: processPrompt_def Let_def update_conv' split: sum.splits)

lemma processTemplatesOf_keeps_id:
  "\<exists>kvs2. fst (processTemplatesOf net repoUrl branchName (JObj kvs1)) = JObj kvs2
          \<and> map_of kvs2 ''id'' = map_of kvs1 ''id''"
  by (auto simp: processTemplatesOf_def update_conv'
           split: sum.splits option.splits json.splits)

lemma processAgent_valid:
  assumes "RepositorySync_validateAgent agent = Inr True"
  shows "\<exists>a. processAgent net repoUrl branchName agent = Inr a"
proof -
  from validateAgent_shape [OF assms] obtain kvs i p where
    a: "agent = JObj kvs" "map_of kvs ''id'' = Some (JStr i)" "map_of kvs ''prompt'' = Some (JStr p)"
    by blast
  obtain a1 r1 where p: "processPrompt net repoUrl branchName agent = (a1, r1)"
    by (cases "processPrompt net repoUrl branchName agent")
  from processPrompt_keeps_id [OF a(3), of net repoUrl branchName] obtain kvs1 where
    k1: "a1 = JObj kvs1" "map_of kvs1 ''id'' = Some (JStr i)"
    using p a(1,2) by auto
  obtain a2 r2 where t: "processTemplatesOf net repoUrl branchName a1 = (a2, r2)"
    by (cases "processTemplatesOf net repoUrl branchName a1")
  from processTemplatesOf_keeps_id [of net repoUrl branchName kvs1] obtain kvs2 where
    k2: "a2 = JObj kvs2" "map_of kvs2 ''id'' = Some (JStr i)"
    using t k1 by auto
  have "logAgentId a1 = None" "logAgentId a2 = None"
    using k1 k2 by (simp_all add: logAgentId_string)
  then show ?thesis
    by (simp add: processAgent_def p t split: option.splits)
qed

lemma processAgentFiles_valid:
  "\<forall>a\<in>set validAgents. RepositorySync_validateAgent a = Inr True \<Longrightarrow>
     processAgentFiles net repoUrl branchName validAgents =
       Inr (map (\<lambda>a. projr (processAgent net repoUrl branchName a)) validAgents)"
proof (induction validAgents)
  case Nil
  then show ?case by simp
next
  case (Cons a validAgents)
  from Cons.prems processAgent_valid [of a net repoUrl branchName]
  obtain a' where "processAgent net repoUrl branchName a = Inr a'" by auto
  with Cons show ?case by simp
qed

text \<open>
  The log line of the outer \<open>catch\<close> is part of the loop: on an agent that did not go
  through \<open>validateAgent\<close>, with the object \<open>{toString: 1}\<close> for \<open>id\<close> and the number 5
  for \<open>prompt\<close>, the prompt step throws, the log line throws in turn, and
  \<open>processAgentFiles\<close> ends with that exception.  \<open>validateAgent\<close> rejects this agent.
\<close>

lemma processAgentFiles_log_throws:
  "RepositorySync_validateAgent oddIdAgent = Inr False
   \<and> processAgentFiles net repoUrl branchName [plainAgent, oddIdAgent] =
       Inl (TypeError ''Cannot convert object to primitive value'')"
  by (simp add: RepositorySync_validateAgent_def bindE_def processAgent_def processPrompt_def
        processTemplatesOf_def logAgentId_def templateString_def oddIdAgent_def plainAgent_def)

lemma processPrompt_templates:
  assumes "processPrompt net repoUrl branchName (JObj kvs) = (agent1, None)"
  shows "\<exists>kvs1. agent1 = JObj kvs1 \<and> map_of kvs1 ''templates'' = map_of kvs ''templates''
                \<and> map_of kvs1 ''id'' = map_of kvs ''id''"
  using assms
  by (auto simp: processPrompt_def Let_def update_conv'
           split: sum.splits option.splits json.splits if_splits)

text \<open>
  C7.  Take a list of agents that passed the Fetcher's \<open>validateAgent\<close>, as
  \<open>fetchAgents\<close> hands it over, and in it an agent object whose
  \<open>templates\<close> is an array of strings and whose prompt step completes (the prompt is
  literal text, or a file reference that is fetched).  Then \<open>processAgentFiles\<close>
  returns a list of the same length, with at the agent's place the same agent, its
  \<open>id\<close> untouched and its templates processed entry by entry: an entry that starts with
  \<open>file:\<close> and whose request throws stays the literal text it was, an entry that starts
  with \<open>file:\<close> and whose request succeeds becomes the data received, and any other
  entry stays as it is.
\<close>

theorem processAgentFiles_template_fallback:
  assumes "\<forall>a\<in>set validAgents. RepositorySync_validateAgent a = Inr True"
      and "i < length validAgents"
      and "validAgents ! i = JObj kvs"
      and "map_of kvs ''templates'' = Some (JArr (map JStr ts))"
      and "processPrompt net repoUrl branchName (JObj kvs) = (agent1, None)"
  shows "\<exists>out. processAgentFiles net repoUrl branchName validAgents = Inr out
           \<and> length out = length validAgents
           \<and> out ! i =
               setProp agent1 ''templates''
                 (JArr (map (\<lambda>t. if startsWith t ''file:''
                                  then (case net (fileRequest (buildRawUrl repoUrl branchName
                                                    (''templates/'' @ substring 5 t))) of
                                          Inl e \<Rightarrow> JStr t
                                        | Inr data \<Rightarrow> data)
                                  else JStr t) ts))
           \<and> getProp (out ! i) ''id'' = getProp (validAgents ! i) ''id''"
proof -
  let ?res = "map (\<lambda>t. if startsWith t ''file:''
                                  then (case net (fileRequest (buildRawUrl repoUrl branchName
                                                    (''templates/'' @ substring 5 t))) of
                                          Inl e \<Rightarrow> JStr t
                                        | Inr data \<Rightarrow> data)
                                  else JStr t) ts"
  from processPrompt_templates [OF assms(5)] obtain kvs1 where
    k: "agent1 = JObj kvs1" "map_of kvs1 ''templates'' = map_of kvs ''templates''"
       "map_of kvs1 ''id'' = map_of kvs ''id''"
    by blast
  have t: "processTemplatesOf net repoUrl branchName agent1 = (setProp agent1 ''templates'' (JArr ?res), None)"
    using k assms(4) by (simp add: processTemplatesOf_def processTemplates_strings)
  have a: "processAgent net repoUrl branchName (JObj kvs) = Inr (setProp agent1 ''templates'' (JArr ?res))"
    by (simp add: processAgent_def assms(5) t)
  have "processAgentFiles net repoUrl branchName validAgents =
          Inr (map (\<lambda>a. projr (processAgent net repoUrl branchName a)) validAgents)"
    using assms(1) by (rule processAgentFiles_valid)
  moreover have "map (\<lambda>a. projr (processAgent net repoUrl branchName a)) validAgents ! i
                   = setProp agent1 ''templates'' (JArr ?res)"
    using assms(2,3) a by simp
  moreover have "getProp (setProp agent1 ''templates'' (JArr ?res)) ''id'' = getProp (validAgents ! i) ''id''"
    using k assms(3) by (simp add: update_conv')
  ultimately show ?thesis by simp
qed

lemma templateUrls:
  "buildRawUrl ''https://github.com/acme/widgets.git'' ''main'' ''templates/missing.md''
     = ''https://raw.githubusercontent.com/acme/widgets/main/templates/missing.md''"
  "buildRawUrl ''https://github.com/acme/widgets.git'' ''main'' ''templates/ok.md''
     = ''https://raw.githubusercontent.com/acme/widgets/main/templates/ok.md''"
  by code_simp+

theorem processAgentFiles_template_fallback_witness:
  "RepositorySync_validateAgent plainAgent = Inr True
   \<and> RepositorySync_validateAgent templatedAgent = Inr True
   \<and> templateRepository (fileRequest (buildRawUrl ''https://github.com/acme/widgets.git'' ''main''
        (''templates/'' @ substring 5 ''file:missing.md'')))
       = Inl (AxiosError ''Request failed with status code 404'')
   \<and> processAgentFiles templateRepository ''https://github.com/acme/widgets.git'' ''main''
        [plainAgent, templatedAgent]
       = Inr [plainAgent,
              JObj [(''id'', JStr ''t''), (''name'', JStr ''templated''), (''prompt'', JStr ''hello''),
                    (''templates'', JArr [JStr ''file:missing.md'', JStr ''resolved'',
                                          JStr ''plain text''])]]"
proof -
  let ?kvs = "[(''id'', JStr ''t''), (''name'', JStr ''templated''), (''prompt'', JStr ''hello''),
               (''templates'', JArr [JStr ''file:missing.md'', JStr ''file:ok.md'', JStr ''plain text''])]"
  have v: "RepositorySync_validateAgent plainAgent = Inr True"
          "RepositorySync_validateAgent templatedAgent = Inr True"
    by code_simp+
  have n: "\<forall>a\<in>set [templatedAgent]. RepositorySync_validateAgent a = Inr True"
    by (simp add: v)
  have i: "(0::nat) < length [templatedAgent]" by simp
  have o: "[templatedAgent] ! 0 = JObj ?kvs"
    by (simp add: templatedAgent_def)
  have t: "map_of ?kvs ''templates''
             = Some (JArr (map JStr [''file:missing.md'', ''file:ok.md'', ''plain text'']))"
    by simp
  have p: "processPrompt templateRepository ''https://github.com/acme/widgets.git'' ''main'' (JObj ?kvs)
             = (templatedAgent, None)"
    by (simp add: processPrompt_def templatedAgent_def)
  have m: "templateRepository (fileRequest (buildRawUrl ''https://github.com/acme/widgets.git'' ''main''
        (''templates/'' @ substring 5 ''file:missing.md'')))
       = Inl (AxiosError ''Request failed with status code 404'')"
    by (simp add: substring_def templateUrls templateRepository_def fileRequest_def)
  have f: "processAgent templateRepository ''https://github.com/acme/widgets.git'' ''main'' plainAgent
             = Inr plainAgent"
    by (simp add: processAgent_def processPrompt_def processTemplatesOf_def plainAgent_def)
  from processAgentFiles_template_fallback [OF n i o t p]
  obtain out where out:
    "processAgentFiles templateRepository ''https://github.com/acme/widgets.git'' ''main''
       [templatedAgent] = Inr out"
    "length out = 1"
    "out ! 0 = JObj [(''id'', JStr ''t''), (''name'', JStr ''templated''), (''prompt'', JStr ''hello''),
                    (''templates'', JArr [JStr ''file:missing.md'', JStr ''resolved'',
                                          JStr ''plain text''])]"
    by (auto simp: substring_def templateUrls templateRepository_def fileRequest_def templatedAgent_def)
  have "out = [out ! 0]"
    using out(2) by (cases out) auto
  with out(1,3) f v m show ?thesis
    by simp
qed


end
